theory Spec2Isabelle
  imports Complex_Main "HOL-Library.Word" "HOL-Library.Multiset" "HOL-Library.Product_Lexorder"
    "HOL-Library.Log_Nat"
begin

unbundle bit_operations_syntax

section \<open>Package knox: basic types\<close>

text \<open>
  Go's \<open>[]byte\<close> is a list of 8-bit words, \<open>uint64\<close> and \<open>int64\<close> are 64-bit words
  (\<open>int64\<close> read through \<open>sint\<close>), Go strings are \<open>string\<close>. The three enumerations
  of the package are Go \<open>int\<close> types with named constants; a variable of such a type can
  hold any integer, so they are modelled as \<open>int\<close> with the constants defined by their
  \<open>iota\<close> values.
\<close>

type_synonym byte = "8 word"
type_synonym uint64 = "64 word"
type_synonym int64 = "64 word"

type_synonym VersionStatus = int

definition Primary :: VersionStatus where "Primary = 0"
definition Active :: VersionStatus where "Active = 1"
definition Inactive :: VersionStatus where "Inactive = 2"

type_synonym PrincipalType = int

definition Unknown :: PrincipalType where "Unknown = - 1"
definition User :: PrincipalType where "User = 1"
definition UserGroup :: PrincipalType where "UserGroup = 2"
definition Machine :: PrincipalType where "Machine = 3"
definition MachinePrefix :: PrincipalType where "MachinePrefix = 4"
definition Service :: PrincipalType where "Service = 5"

type_synonym AccessType = int

definition None_AccessType :: AccessType where "None_AccessType = 0"
definition Read :: AccessType where "Read = 1"
definition Write :: AccessType where "Write = 2"
definition Admin :: AccessType where "Admin = 3"

lemmas enum_defs = Primary_def Active_def Inactive_def Unknown_def User_def UserGroup_def
  Machine_def MachinePrefix_def Service_def None_AccessType_def Read_def Write_def Admin_def

text \<open>
  Errors are values. The first group are the package-level \<open>Err...\<close> variables of
  packages knox and keydb; \<open>ErrDecryptingKey\<close> is the key manager's
  \<open>fmt.Errorf("Error decrypting key: %s", err.Error())\<close>; \<open>KeySizeError\<close>,
  \<open>ErrRandRead\<close> and \<open>ErrOpen\<close> are the failures of \<open>aes.NewCipher\<close>,
  \<open>rand.Read\<close> and \<open>gcm.Open\<close>; \<open>ErrInjected\<close> is an error stored in the in-memory
  database by \<open>SetError\<close>; \<open>ErrMessage\<close> is \<open>fmt.Errorf\<close> of a message string.
\<close>

datatype error =
    ErrACLDuplicateEntries | ErrACLContainsNone
  | ErrInvalidKeyID | ErrInvalidVersionHash
  | ErrInactiveToPrimary | ErrPrimaryToActive | ErrPrimaryToInactive
  | ErrMulitplePrimary | ErrSameVersionID
  | ErrInvalidStatus | ErrKeyVersionNotFound | ErrKeyIDNotFound | ErrKeyExists
  | ErrDBVersion | ErrCryptorVersion
  | ErrDecryptingKey error
  | KeySizeError nat | ErrRandRead | ErrOpen
  | ErrInjected string
  | ErrMessage string

text \<open>A run-time panic is not a returned error: it has an outcome of its own.\<close>

datatype panic = NilPointerDereference | IndexOutOfRange | IncorrectNonceLength | HostnameRequired

datatype 'a result = Ok 'a | Err error | Panic panic

record Access =
  acc_Type :: PrincipalType
  acc_ID :: string
  acc_AccessType :: AccessType

type_synonym ACL = "Access list"

record KeyVersion =
  kv_ID :: uint64
  kv_Data :: "byte list"
  kv_Status :: VersionStatus
  kv_CreationTime :: int64

type_synonym KeyVersionList = "KeyVersion list"

record Key =
  key_ID :: string
  key_ACL :: ACL
  key_VersionList :: KeyVersionList
  key_VersionHash :: string
  key_Path :: string

section \<open>ACL.Add\<close>

text \<open>
  \<open>ACL.Add\<close> scans the list for the first entry with the type and id of \<open>a\<close>. At that
  entry it returns the list without it when \<open>a\<close> grants \<open>None\<close>, and the list with the
  entry overwritten by \<open>a\<close> otherwise. When the scan finds nothing it returns the list
  itself for \<open>None\<close> and the list with \<open>a\<close> appended otherwise. The model gives the
  returned slice as a value (in the removing branch the Go code builds it with
  \<open>append(acl[:i], acl[i+1:]...)\<close>, which also shifts the caller's backing array).
\<close>

fun ACL_Add :: "ACL \<Rightarrow> Access \<Rightarrow> ACL" where
  "ACL_Add [] a = (if acc_AccessType a = None_AccessType then [] else [a])"
| "ACL_Add (b # acl) a =
     (if acc_Type b = acc_Type a \<and> acc_ID a = acc_ID b
      then (if acc_AccessType a = None_AccessType then acl else a # acl)
      else b # ACL_Add acl a)"

text \<open>\<open>same_principal a b\<close> is the test of the loop: same type and same id.\<close>

definition same_principal :: "Access \<Rightarrow> Access \<Rightarrow> bool" where
  "same_principal a b \<longleftrightarrow> acc_Type b = acc_Type a \<and> acc_ID a = acc_ID b"

lemma ACL_Add_absent:
  "\<forall>b \<in> set acl. \<not> same_principal a b \<Longrightarrow>
   ACL_Add acl a = (if acc_AccessType a = None_AccessType then acl else acl @ [a])"
  by (induction acl) (auto simp: same_principal_def)

lemma ACL_Add_present:
  "\<forall>c \<in> set pre. \<not> same_principal a c \<Longrightarrow> same_principal a b \<Longrightarrow>
   ACL_Add (pre @ b # post) a =
     (if acc_AccessType a = None_AccessType then pre @ post else pre @ a # post)"
  by (induction pre) (auto simp: same_principal_def)

lemma at_most_one_split:
  assumes "length (filter (same_principal a) acl) \<le> 1" and "\<exists>b \<in> set acl. same_principal a b"
  shows "\<exists>pre b post. acl = pre @ b # post \<and> same_principal a b
           \<and> (\<forall>c \<in> set pre. \<not> same_principal a c) \<and> (\<forall>c \<in> set post. \<not> same_principal a c)"
proof -
  from assms(2) obtain pre b post where
    s: "acl = pre @ b # post" "same_principal a b" "\<forall>c \<in> set pre. \<not> same_principal a c"
    by (metis split_list_first_prop)
  have "filter (same_principal a) pre = []"
    using s(3) by (simp add: filter_empty_conv)
  with assms(1) s(1,2) have "filter (same_principal a) post = []"
    by simp
  then have "\<forall>c \<in> set post. \<not> same_principal a c"
    by (simp add: filter_empty_conv)
  with s show ?thesis by blast
qed

lemma same_principal_refl: "same_principal a a"
  by (simp add: same_principal_def)

lemma same_principal_access:
  "same_principal (x\<lparr>acc_AccessType := r\<rparr>) b = same_principal x b"
  "same_principal b (x\<lparr>acc_AccessType := r\<rparr>) = same_principal b x"
  by (simp_all add: same_principal_def)

lemma ACL_Add_idem_unique:
  assumes "length (filter (same_principal a) acl) \<le> 1"
  shows "ACL_Add (ACL_Add acl a) a = ACL_Add acl a"
proof (cases "\<exists>b \<in> set acl. same_principal a b")
  case False
  then have ab: "\<forall>b \<in> set acl. \<not> same_principal a b" by blast
  show ?thesis
  proof (cases "acc_AccessType a = None_AccessType")
    case True
    with ab show ?thesis by (simp add: ACL_Add_absent)
  next
    case False
    have "ACL_Add (acl @ a # []) a = acl @ a # []"
      using ab False by (subst ACL_Add_present) (simp_all add: same_principal_refl)
    with ab False show ?thesis by (simp add: ACL_Add_absent)
  qed
next
  case True
  from at_most_one_split [OF assms True] obtain pre b post where
    s: "acl = pre @ b # post" "same_principal a b"
       "\<forall>c \<in> set pre. \<not> same_principal a c" "\<forall>c \<in> set post. \<not> same_principal a c"
    by blast
  show ?thesis
  proof (cases "acc_AccessType a = None_AccessType")
    case True
    have "\<forall>c \<in> set (pre @ post). \<not> same_principal a c" using s(3,4) by auto
    then have "ACL_Add (pre @ post) a = pre @ post"
      using True by (simp add: ACL_Add_absent)
    with s True show ?thesis by (simp add: ACL_Add_present)
  next
    case False
    have "ACL_Add (pre @ a # post) a = pre @ a # post"
      using s(3) False by (subst ACL_Add_present) (simp_all add: same_principal_refl)
    with s False show ?thesis by (simp add: ACL_Add_present)
  qed
qed

lemma ACL_Add_revoke_grant_unique:
  assumes "length (filter (same_principal x) acl) \<le> 1" and "r \<noteq> None_AccessType"
  shows "filter (same_principal x)
           (ACL_Add (ACL_Add acl (x\<lparr>acc_AccessType := None_AccessType\<rparr>)) (x\<lparr>acc_AccessType := r\<rparr>))
         = [x\<lparr>acc_AccessType := r\<rparr>]"
proof -
  let ?n = "x\<lparr>acc_AccessType := None_AccessType\<rparr>" and ?g = "x\<lparr>acc_AccessType := r\<rparr>"
  have "\<exists>ys. ACL_Add acl ?n = ys \<and> (\<forall>c \<in> set ys. \<not> same_principal x c)"
  proof (cases "\<exists>b \<in> set acl. same_principal x b")
    case False
    then show ?thesis by (simp add: ACL_Add_absent same_principal_access)
  next
    case True
    from at_most_one_split [OF assms(1) True] obtain pre b post where
      s: "acl = pre @ b # post" "same_principal x b"
         "\<forall>c \<in> set pre. \<not> same_principal x c" "\<forall>c \<in> set post. \<not> same_principal x c"
      by blast
    have "ACL_Add (pre @ b # post) ?n = pre @ post"
      using s(2,3) by (subst ACL_Add_present) (simp_all add: same_principal_access)
    with s show ?thesis by auto
  qed
  then obtain ys where ys: "ACL_Add acl ?n = ys" "\<forall>c \<in> set ys. \<not> same_principal x c"
    by blast
  have "ACL_Add ys ?g = ys @ [?g]"
    using ys(2) assms(2) by (simp add: ACL_Add_absent same_principal_access)
  moreover have "filter (same_principal x) ys = []"
    using ys(2) by (simp add: filter_empty_conv)
  ultimately show ?thesis
    using ys(1) by (simp add: same_principal_access same_principal_refl)
qed


text \<open>
  Claim C6, as amended. For every ACL and every access entry \<open>a\<close>, \<open>ACL.Add\<close> returns:
  the ACL without its first entry of \<open>a\<close>'s (type, id) when there is one and \<open>a\<close> grants
  \<open>None\<close>; the ACL with that entry replaced by \<open>a\<close> when there is one and \<open>a\<close> grants
  something else; the ACL with \<open>a\<close> appended when there is none and \<open>a\<close> does not grant
  \<open>None\<close>; the ACL unchanged when there is none and \<open>a\<close> grants \<open>None\<close>. For an ACL
  with at most one entry of \<open>a\<close>'s (type, id) (in particular every ACL that passes
  \<open>Validate\<close>), adding \<open>a\<close> twice gives the same ACL as adding it once, and
  revoking (\<open>None\<close>) then granting \<open>r \<noteq> None\<close> leaves exactly one entry of that
  (type, id), the granted one.
\<close>

theorem ACL_Add_cases_and_laws:
  "(\<forall>pre b post. acl = pre @ b # post \<and> (\<forall>c \<in> set pre. \<not> same_principal a c)
        \<and> same_principal a b \<longrightarrow>
      ACL_Add acl a = (if acc_AccessType a = None_AccessType then pre @ post else pre @ a # post))
   \<and> ((\<forall>b \<in> set acl. \<not> same_principal a b) \<longrightarrow>
      ACL_Add acl a = (if acc_AccessType a = None_AccessType then acl else acl @ [a]))
   \<and> (length (filter (same_principal a) acl) \<le> 1 \<longrightarrow>
      ACL_Add (ACL_Add acl a) a = ACL_Add acl a)
   \<and> (length (filter (same_principal a) acl) \<le> 1 \<and> r \<noteq> None_AccessType \<longrightarrow>
      filter (same_principal a)
        (ACL_Add (ACL_Add acl (a\<lparr>acc_AccessType := None_AccessType\<rparr>)) (a\<lparr>acc_AccessType := r\<rparr>))
      = [a\<lparr>acc_AccessType := r\<rparr>])"
  using ACL_Add_present [of _ a] ACL_Add_absent [of acl a] ACL_Add_idem_unique [of a acl]
    ACL_Add_revoke_grant_unique [of a acl r]
  by blast

text \<open>
  A run of the theorem: the ACL holds one grant for user \<open>u\<close> and one for machine \<open>m\<close>;
  revoking \<open>u\<close> removes its entry, granting \<open>Write\<close> to an absent service appends it,
  and both laws hold for \<open>u\<close>.
\<close>

theorem ACL_Add_cases_and_laws_witness:
  "ACL_Add [\<lparr>acc_Type = User, acc_ID = ''u'', acc_AccessType = Read\<rparr>,
            \<lparr>acc_Type = Machine, acc_ID = ''m'', acc_AccessType = Write\<rparr>]
           \<lparr>acc_Type = User, acc_ID = ''u'', acc_AccessType = None_AccessType\<rparr>
     = [\<lparr>acc_Type = Machine, acc_ID = ''m'', acc_AccessType = Write\<rparr>]
   \<and> ACL_Add [\<lparr>acc_Type = User, acc_ID = ''u'', acc_AccessType = Read\<rparr>,
              \<lparr>acc_Type = Machine, acc_ID = ''m'', acc_AccessType = Write\<rparr>]
             \<lparr>acc_Type = Service, acc_ID = ''s'', acc_AccessType = Write\<rparr>
     = [\<lparr>acc_Type = User, acc_ID = ''u'', acc_AccessType = Read\<rparr>,
        \<lparr>acc_Type = Machine, acc_ID = ''m'', acc_AccessType = Write\<rparr>,
        \<lparr>acc_Type = Service, acc_ID = ''s'', acc_AccessType = Write\<rparr>]
   \<and> ACL_Add (ACL_Add [\<lparr>acc_Type = User, acc_ID = ''u'', acc_AccessType = Read\<rparr>,
                       \<lparr>acc_Type = Machine, acc_ID = ''m'', acc_AccessType = Write\<rparr>]
                      \<lparr>acc_Type = User, acc_ID = ''u'', acc_AccessType = None_AccessType\<rparr>)
             \<lparr>acc_Type = User, acc_ID = ''u'', acc_AccessType = None_AccessType\<rparr>
     = ACL_Add [\<lparr>acc_Type = User, acc_ID = ''u'', acc_AccessType = Read\<rparr>,
                \<lparr>acc_Type = Machine, acc_ID = ''m'', acc_AccessType = Write\<rparr>]
               \<lparr>acc_Type = User, acc_ID = ''u'', acc_AccessType = None_AccessType\<rparr>
   \<and> filter (same_principal \<lparr>acc_Type = User, acc_ID = ''u'', acc_AccessType = Admin\<rparr>)
        (ACL_Add (ACL_Add [\<lparr>acc_Type = User, acc_ID = ''u'', acc_AccessType = Read\<rparr>,
                           \<lparr>acc_Type = Machine, acc_ID = ''m'', acc_AccessType = Write\<rparr>]
                          \<lparr>acc_Type = User, acc_ID = ''u'', acc_AccessType = None_AccessType\<rparr>)
                 \<lparr>acc_Type = User, acc_ID = ''u'', acc_AccessType = Read\<rparr>)
     = [\<lparr>acc_Type = User, acc_ID = ''u'', acc_AccessType = Read\<rparr>]"
proof -
  let ?u = "\<lparr>acc_Type = User, acc_ID = ''u'', acc_AccessType = Read\<rparr>"
  let ?m = "\<lparr>acc_Type = Machine, acc_ID = ''m'', acc_AccessType = Write\<rparr>"
  let ?un = "\<lparr>acc_Type = User, acc_ID = ''u'', acc_AccessType = None_AccessType\<rparr>"
  let ?ua = "\<lparr>acc_Type = User, acc_ID = ''u'', acc_AccessType = Admin\<rparr>"
  let ?s = "\<lparr>acc_Type = Service, acc_ID = ''s'', acc_AccessType = Write\<rparr>"
  have split: "[?u, ?m] = [] @ ?u # [?m]" by simp
  have one: "length (filter (same_principal ?un) [?u, ?m]) \<le> 1"
    and one': "length (filter (same_principal ?ua) [?u, ?m]) \<le> 1"
    and absent: "\<forall>b \<in> set [?u, ?m]. \<not> same_principal ?s b"
    and present: "same_principal ?un ?u"
    and r: "Read \<noteq> None_AccessType"
    by (simp_all add: same_principal_def enum_defs)
  from ACL_Add_cases_and_laws [of "[?u, ?m]" ?un Read] split present one
  have c1: "ACL_Add [?u, ?m] ?un = [?m]"
    and c3: "ACL_Add (ACL_Add [?u, ?m] ?un) ?un = ACL_Add [?u, ?m] ?un"
    by simp_all
  from ACL_Add_cases_and_laws [of "[?u, ?m]" ?s Read] absent
  have c2: "ACL_Add [?u, ?m] ?s = [?u, ?m, ?s]"
    by (simp add: enum_defs)
  from ACL_Add_cases_and_laws [of "[?u, ?m]" ?ua Read] one' r
  have c4: "filter (same_principal ?ua) (ACL_Add (ACL_Add [?u, ?m] ?un) ?u) = [?u]"
    by simp
  from c1 c2 c3 c4 show ?thesis by blast
qed

text \<open>
  The laws of claim C6 as stated quantify over every ACL. \<open>ACL.Add\<close> stops at the first
  entry of the principal, so on an ACL that lists a principal more than once a second
  \<open>None\<close> removes a second entry, and a revoke followed by a grant leaves an old entry
  beside the new one.
\<close>

theorem ACL_Add_duplicates_counterexample:
  "ACL_Add (ACL_Add [\<lparr>acc_Type = User, acc_ID = ''u'', acc_AccessType = Read\<rparr>,
                     \<lparr>acc_Type = User, acc_ID = ''u'', acc_AccessType = Write\<rparr>]
                    \<lparr>acc_Type = User, acc_ID = ''u'', acc_AccessType = None_AccessType\<rparr>)
           \<lparr>acc_Type = User, acc_ID = ''u'', acc_AccessType = None_AccessType\<rparr>
     \<noteq> ACL_Add [\<lparr>acc_Type = User, acc_ID = ''u'', acc_AccessType = Read\<rparr>,
                 \<lparr>acc_Type = User, acc_ID = ''u'', acc_AccessType = Write\<rparr>]
                \<lparr>acc_Type = User, acc_ID = ''u'', acc_AccessType = None_AccessType\<rparr>
   \<and> ACL_Add (ACL_Add [\<lparr>acc_Type = User, acc_ID = ''u'', acc_AccessType = Read\<rparr>,
                       \<lparr>acc_Type = User, acc_ID = ''u'', acc_AccessType = Write\<rparr>,
                       \<lparr>acc_Type = User, acc_ID = ''u'', acc_AccessType = Admin\<rparr>]
                      \<lparr>acc_Type = User, acc_ID = ''u'', acc_AccessType = None_AccessType\<rparr>)
             \<lparr>acc_Type = User, acc_ID = ''u'', acc_AccessType = Read\<rparr>
     = [\<lparr>acc_Type = User, acc_ID = ''u'', acc_AccessType = Read\<rparr>,
        \<lparr>acc_Type = User, acc_ID = ''u'', acc_AccessType = Admin\<rparr>]"
  by (simp add: enum_defs)

section \<open>KeyVersionList.Update\<close>

definition demote_Primary :: "KeyVersionList \<Rightarrow> KeyVersionList" where
  "demote_Primary kvl =
     map (\<lambda>v2. if kv_Status v2 = Primary then v2\<lparr>kv_Status := Active\<rparr> else v2) kvl"

definition set_Status :: "KeyVersionList \<Rightarrow> nat \<Rightarrow> VersionStatus \<Rightarrow> KeyVersionList" where
  "set_Status kvl i s = kvl[i := (kvl ! i)\<lparr>kv_Status := s\<rparr>]"

definition Update_at :: "KeyVersionList \<Rightarrow> nat \<Rightarrow> KeyVersion \<Rightarrow> VersionStatus \<Rightarrow> KeyVersionList result" where
  "Update_at kvl i v s =
     (if s = Primary then
        (if kv_Status v \<noteq> Active then Err ErrInactiveToPrimary
         else Ok (set_Status (demote_Primary kvl) i Primary))
      else if s = Active then
        (if kv_Status v \<noteq> Inactive then Err ErrPrimaryToActive
         else Ok (set_Status kvl i Active))
      else if s = Inactive then
        (if kv_Status v \<noteq> Active then Err ErrPrimaryToInactive
         else Ok (set_Status kvl i Inactive))
      else Ok kvl)"

function Update_loop :: "KeyVersionList \<Rightarrow> nat \<Rightarrow> uint64 \<Rightarrow> VersionStatus \<Rightarrow> KeyVersionList result" where
  "Update_loop kvl i versionID s =
     (if length kvl \<le> i then Err ErrKeyVersionNotFound
      else if kv_ID (kvl ! i) = versionID then Update_at kvl i (kvl ! i) s
      else Update_loop kvl (Suc i) versionID s)"
  by pat_completeness auto
termination
  by (relation "measure (\<lambda>(kvl, i, versionID, s). length kvl - i)") auto

declare Update_loop.simps [simp del]

definition KeyVersionList_Update :: "KeyVersionList \<Rightarrow> uint64 \<Rightarrow> VersionStatus \<Rightarrow> KeyVersionList result" where
  "KeyVersionList_Update kvl versionID s = Update_loop kvl 0 versionID s"

lemma Update_loop_found:
  "i \<le> length pre \<Longrightarrow> \<forall>u \<in> set pre. kv_ID u \<noteq> vid \<Longrightarrow> kv_ID v = vid \<Longrightarrow>
   Update_loop (pre @ v # post) i vid s = Update_at (pre @ v # post) (length pre) v s"
proof (induction "length pre - i" arbitrary: i)
  case 0
  then have "i = length pre" by simp
  with 0 show ?case by (subst Update_loop.simps) simp
next
  case (Suc n)
  then have lt: "i < length pre" and n: "n = length pre - Suc i" by simp_all
  from lt Suc.prems(2) have "kv_ID ((pre @ v # post) ! i) \<noteq> vid"
    by (simp add: nth_append)
  moreover from Suc.hyps(1) [OF n] lt Suc.prems
  have "Update_loop (pre @ v # post) (Suc i) vid s = Update_at (pre @ v # post) (length pre) v s"
    by simp
  ultimately show ?case using lt by (subst Update_loop.simps) simp
qed

lemma Update_loop_absent:
  "\<forall>u \<in> set kvl. kv_ID u \<noteq> vid \<Longrightarrow> Update_loop kvl i vid s = Err ErrKeyVersionNotFound"
proof (induction "length kvl - i" arbitrary: i)
  case 0
  then show ?case by (subst Update_loop.simps) simp
next
  case (Suc n)
  then have lt: "i < length kvl" and n: "n = length kvl - Suc i" by simp_all
  from lt Suc.prems have "kv_ID (kvl ! i) \<noteq> vid" by simp
  with Suc.hyps(1) [OF n] Suc.prems lt show ?case by (subst Update_loop.simps) simp
qed

lemma set_Status_split: "set_Status (pre @ v # post) (length pre) s = pre @ v\<lparr>kv_Status := s\<rparr> # post"
  by (simp add: set_Status_def)

lemma demote_Primary_split:
  "kv_Status v \<noteq> Primary \<Longrightarrow>
   demote_Primary (pre @ v # post) = demote_Primary pre @ v # demote_Primary post"
  by (simp add: demote_Primary_def)

lemma length_demote_Primary: "length (demote_Primary kvl) = length kvl"
  by (simp add: demote_Primary_def)

text \<open>
  Claim C2. Let \<open>v\<close> be the first version of the list whose id is \<open>versionID\<close>.
  Target \<open>Primary\<close>: succeeds exactly when \<open>v\<close> is \<open>Active\<close>, making \<open>v\<close> Primary
  and every version that was Primary Active; otherwise \<open>ErrInactiveToPrimary\<close>.
  Target \<open>Active\<close>: succeeds exactly when \<open>v\<close> is \<open>Inactive\<close>, changing only \<open>v\<close>;
  otherwise \<open>ErrPrimaryToActive\<close>. Target \<open>Inactive\<close>: succeeds exactly when \<open>v\<close> is
  \<open>Active\<close>, changing only \<open>v\<close>; otherwise \<open>ErrPrimaryToInactive\<close>. So every
  transition out of Primary and every self-loop fails. When no version has the id the
  call fails with \<open>ErrKeyVersionNotFound\<close>.
\<close>

theorem KeyVersionList_Update_state_machine:
  "(\<forall>pre v post. kvl = pre @ v # post \<and> (\<forall>u \<in> set pre. kv_ID u \<noteq> versionID) \<and> kv_ID v = versionID \<longrightarrow>
       KeyVersionList_Update kvl versionID Primary =
         (if kv_Status v = Active
          then Ok (demote_Primary pre @ v\<lparr>kv_Status := Primary\<rparr> # demote_Primary post)
          else Err ErrInactiveToPrimary)
     \<and> KeyVersionList_Update kvl versionID Active =
         (if kv_Status v = Inactive then Ok (pre @ v\<lparr>kv_Status := Active\<rparr> # post)
          else Err ErrPrimaryToActive)
     \<and> KeyVersionList_Update kvl versionID Inactive =
         (if kv_Status v = Active then Ok (pre @ v\<lparr>kv_Status := Inactive\<rparr> # post)
          else Err ErrPrimaryToInactive))
   \<and> ((\<forall>u \<in> set kvl. kv_ID u \<noteq> versionID) \<longrightarrow>
       KeyVersionList_Update kvl versionID s = Err ErrKeyVersionNotFound)"
proof (intro conjI allI impI)
  fix pre v post
  assume a: "kvl = pre @ v # post \<and> (\<forall>u \<in> set pre. kv_ID u \<noteq> versionID) \<and> kv_ID v = versionID"
  then have loop: "\<And>s. KeyVersionList_Update kvl versionID s = Update_at (pre @ v # post) (length pre) v s"
    by (simp add: KeyVersionList_Update_def Update_loop_found)
  show "KeyVersionList_Update kvl versionID Primary =
         (if kv_Status v = Active
          then Ok (demote_Primary pre @ v\<lparr>kv_Status := Primary\<rparr> # demote_Primary post)
          else Err ErrInactiveToPrimary)"
  proof (cases "kv_Status v = Active")
    case True
    then have "kv_Status v \<noteq> Primary" by (simp add: enum_defs)
    then have "set_Status (demote_Primary (pre @ v # post)) (length pre) Primary
        = demote_Primary pre @ v\<lparr>kv_Status := Primary\<rparr> # demote_Primary post"
      using set_Status_split [of "demote_Primary pre" v "demote_Primary post" Primary]
      by (simp add: demote_Primary_split length_demote_Primary)
    with True show ?thesis by (simp add: loop Update_at_def)
  next
    case False
    then show ?thesis by (simp add: loop Update_at_def)
  qed
  show "KeyVersionList_Update kvl versionID Active =
         (if kv_Status v = Inactive then Ok (pre @ v\<lparr>kv_Status := Active\<rparr> # post)
          else Err ErrPrimaryToActive)"
    by (simp add: loop Update_at_def set_Status_split enum_defs)
  show "KeyVersionList_Update kvl versionID Inactive =
         (if kv_Status v = Active then Ok (pre @ v\<lparr>kv_Status := Inactive\<rparr> # post)
          else Err ErrPrimaryToInactive)"
    by (simp add: loop Update_at_def set_Status_split enum_defs)
next
  assume "\<forall>u \<in> set kvl. kv_ID u \<noteq> versionID"
  then show "KeyVersionList_Update kvl versionID s = Err ErrKeyVersionNotFound"
    by (simp add: KeyVersionList_Update_def Update_loop_absent)
qed


text \<open>
  The nine combinations on a list with one version in each state (ids 1, 2, 3), and an
  id that is not in the list.
\<close>

definition mkVersion :: "uint64 \<Rightarrow> VersionStatus \<Rightarrow> KeyVersion" where
  "mkVersion i s = \<lparr>kv_ID = i, kv_Data = [], kv_Status = s, kv_CreationTime = 0\<rparr>"

theorem KeyVersionList_Update_state_machine_witness:
  "KeyVersionList_Update [mkVersion 1 Primary, mkVersion 2 Active, mkVersion 3 Inactive] 1 Primary
     = Err ErrInactiveToPrimary
   \<and> KeyVersionList_Update [mkVersion 1 Primary, mkVersion 2 Active, mkVersion 3 Inactive] 1 Active
     = Err ErrPrimaryToActive
   \<and> KeyVersionList_Update [mkVersion 1 Primary, mkVersion 2 Active, mkVersion 3 Inactive] 1 Inactive
     = Err ErrPrimaryToInactive
   \<and> KeyVersionList_Update [mkVersion 1 Primary, mkVersion 2 Active, mkVersion 3 Inactive] 2 Primary
     = Ok [mkVersion 1 Active, mkVersion 2 Primary, mkVersion 3 Inactive]
   \<and> KeyVersionList_Update [mkVersion 1 Primary, mkVersion 2 Active, mkVersion 3 Inactive] 2 Active
     = Err ErrPrimaryToActive
   \<and> KeyVersionList_Update [mkVersion 1 Primary, mkVersion 2 Active, mkVersion 3 Inactive] 2 Inactive
     = Ok [mkVersion 1 Primary, mkVersion 2 Inactive, mkVersion 3 Inactive]
   \<and> KeyVersionList_Update [mkVersion 1 Primary, mkVersion 2 Active, mkVersion 3 Inactive] 3 Primary
     = Err ErrInactiveToPrimary
   \<and> KeyVersionList_Update [mkVersion 1 Primary, mkVersion 2 Active, mkVersion 3 Inactive] 3 Active
     = Ok [mkVersion 1 Primary, mkVersion 2 Active, mkVersion 3 Active]
   \<and> KeyVersionList_Update [mkVersion 1 Primary, mkVersion 2 Active, mkVersion 3 Inactive] 3 Inactive
     = Err ErrPrimaryToInactive
   \<and> KeyVersionList_Update [mkVersion 1 Primary, mkVersion 2 Active, mkVersion 3 Inactive] 9 Primary
     = Err ErrKeyVersionNotFound"
proof -
  let ?p = "mkVersion 1 Primary" and ?a = "mkVersion 2 Active" and ?i = "mkVersion 3 Inactive"
  have d1: "[?p, ?a, ?i] = [] @ ?p # [?a, ?i] \<and> (\<forall>u \<in> set []. kv_ID u \<noteq> 1) \<and> kv_ID ?p = 1"
    and d2: "[?p, ?a, ?i] = [?p] @ ?a # [?i] \<and> (\<forall>u \<in> set [?p]. kv_ID u \<noteq> 2) \<and> kv_ID ?a = 2"
    and d3: "[?p, ?a, ?i] = [?p, ?a] @ ?i # [] \<and> (\<forall>u \<in> set [?p, ?a]. kv_ID u \<noteq> 3) \<and> kv_ID ?i = 3"
    and d9: "\<forall>u \<in> set [?p, ?a, ?i]. kv_ID u \<noteq> 9"
    by (simp_all add: mkVersion_def)
  note t = KeyVersionList_Update_state_machine [of "[?p, ?a, ?i]" _ Primary]
  from t [of 1, THEN conjunct1, rule_format, OF d1]
  have r1: "KeyVersionList_Update [?p, ?a, ?i] 1 Primary = Err ErrInactiveToPrimary"
    "KeyVersionList_Update [?p, ?a, ?i] 1 Active = Err ErrPrimaryToActive"
    "KeyVersionList_Update [?p, ?a, ?i] 1 Inactive = Err ErrPrimaryToInactive"
    by (simp_all add: mkVersion_def enum_defs)
  from t [of 2, THEN conjunct1, rule_format, OF d2]
  have r2: "KeyVersionList_Update [?p, ?a, ?i] 2 Primary = Ok [mkVersion 1 Active, mkVersion 2 Primary, ?i]"
    "KeyVersionList_Update [?p, ?a, ?i] 2 Active = Err ErrPrimaryToActive"
    "KeyVersionList_Update [?p, ?a, ?i] 2 Inactive = Ok [?p, mkVersion 2 Inactive, ?i]"
    by (simp_all add: mkVersion_def enum_defs demote_Primary_def)
  from t [of 3, THEN conjunct1, rule_format, OF d3]
  have r3: "KeyVersionList_Update [?p, ?a, ?i] 3 Primary = Err ErrInactiveToPrimary"
    "KeyVersionList_Update [?p, ?a, ?i] 3 Active = Ok [?p, ?a, mkVersion 3 Active]"
    "KeyVersionList_Update [?p, ?a, ?i] 3 Inactive = Err ErrPrimaryToInactive"
    by (simp_all add: mkVersion_def enum_defs)
  from t [of 9, THEN conjunct2, THEN mp, OF d9]
  have r9: "KeyVersionList_Update [?p, ?a, ?i] 9 Primary = Err ErrKeyVersionNotFound" .
  from r1 r2 r3 r9 show ?thesis by blast
qed

section \<open>Package keydb: the in-memory database\<close>

record EncKeyVersion =
  ekv_ID :: uint64
  ekv_EncData :: "byte list"
  ekv_Status :: VersionStatus
  ekv_CreationTime :: int64
  ekv_CryptoMetadata :: "byte list"

record DBKey =
  dbk_ID :: string
  dbk_ACL :: ACL
  dbk_VersionList :: "EncKeyVersion list"
  dbk_VersionHash :: string
  dbk_DBVersion :: int64

text \<open>\<open>Copy\<close> is a deep copy: a new record with the same field values.\<close>

definition DBKey_Copy :: "DBKey \<Rightarrow> DBKey" where
  "DBKey_Copy k = \<lparr>dbk_ID = dbk_ID k, dbk_ACL = dbk_ACL k, dbk_VersionList = dbk_VersionList k,
     dbk_VersionHash = dbk_VersionHash k, dbk_DBVersion = dbk_DBVersion k\<rparr>"

text \<open>
  The state of a \<open>TempDB\<close>: its records, in order, and the error set by \<open>SetError\<close>
  (\<open>None\<close> is Go's \<open>nil\<close>). The mutex is not modelled: every method runs under the
  lock from its first to its last statement, so each call is one atomic step on this
  state. Methods return Go's \<open>error\<close> (\<open>None\<close> for \<open>nil\<close>) and the new state.
\<close>

record TempDB =
  db_keys :: "DBKey list"
  db_err :: "error option"

text \<open>\<open>Get\<close> returns a copy of the first record with the id.\<close>

fun TempDB_Get_loop :: "DBKey list \<Rightarrow> string \<Rightarrow> DBKey result" where
  "TempDB_Get_loop [] keyID = Err ErrKeyIDNotFound"
| "TempDB_Get_loop (k # ks) keyID = (if dbk_ID k = keyID then Ok k else TempDB_Get_loop ks keyID)"

definition TempDB_Get :: "TempDB \<Rightarrow> string \<Rightarrow> DBKey result" where
  "TempDB_Get db keyID =
     (case db_err db of Some e \<Rightarrow> Err e | None \<Rightarrow> TempDB_Get_loop (db_keys db) keyID)"

text \<open>
  \<open>Update\<close>: \<open>now\<close> is the value that \<open>time.Now().UnixNano()\<close> returns during the call.
  The loop runs over the indices of \<open>db.keys\<close> and returns at the first record with the
  id of \<open>key\<close>.
\<close>

function TempDB_Update_loop :: "TempDB \<Rightarrow> nat \<Rightarrow> DBKey \<Rightarrow> int64 \<Rightarrow> error option \<times> TempDB" where
  "TempDB_Update_loop db i key now =
     (if length (db_keys db) \<le> i then (Some ErrKeyIDNotFound, db)
      else if dbk_ID (db_keys db ! i) = dbk_ID key then
        (if dbk_DBVersion (db_keys db ! i) \<noteq> dbk_DBVersion key then (Some ErrDBVersion, db)
         else (None, db\<lparr>db_keys := (db_keys db)[i := (DBKey_Copy key)\<lparr>dbk_DBVersion := now\<rparr>]\<rparr>))
      else TempDB_Update_loop db (Suc i) key now)"
  by pat_completeness auto
termination
  by (relation "measure (\<lambda>(db, i, key, now). length (db_keys db) - i)") auto

declare TempDB_Update_loop.simps [simp del]

definition TempDB_Update :: "TempDB \<Rightarrow> DBKey \<Rightarrow> int64 \<Rightarrow> error option \<times> TempDB" where
  "TempDB_Update db key now =
     (case db_err db of Some e \<Rightarrow> (Some e, db) | None \<Rightarrow> TempDB_Update_loop db 0 key now)"

lemma DBKey_Copy_id: "DBKey_Copy k = k"
  by (simp add: DBKey_Copy_def)

lemma TempDB_Update_loop_found:
  "i \<le> length pre \<Longrightarrow> \<forall>u \<in> set pre. dbk_ID u \<noteq> dbk_ID key \<Longrightarrow> dbk_ID dbk = dbk_ID key \<Longrightarrow>
   db_keys db = pre @ dbk # post \<Longrightarrow>
   TempDB_Update_loop db i key now =
     (if dbk_DBVersion dbk \<noteq> dbk_DBVersion key then (Some ErrDBVersion, db)
      else (None, db\<lparr>db_keys := pre @ key\<lparr>dbk_DBVersion := now\<rparr> # post\<rparr>))"
proof (induction "length pre - i" arbitrary: i)
  case 0
  then have "i = length pre" by simp
  with 0 show ?case by (subst TempDB_Update_loop.simps) (simp add: DBKey_Copy_id)
next
  case (Suc n)
  then have lt: "i < length pre" and n: "n = length pre - Suc i" by simp_all
  from lt Suc.prems(2,4) have "dbk_ID (db_keys db ! i) \<noteq> dbk_ID key"
    by (simp add: nth_append)
  moreover from Suc.hyps(1) [OF n] lt Suc.prems
  have "TempDB_Update_loop db (Suc i) key now =
     (if dbk_DBVersion dbk \<noteq> dbk_DBVersion key then (Some ErrDBVersion, db)
      else (None, db\<lparr>db_keys := pre @ key\<lparr>dbk_DBVersion := now\<rparr> # post\<rparr>))"
    by simp
  ultimately show ?case using lt Suc.prems(4) by (subst TempDB_Update_loop.simps) simp
qed

lemma TempDB_Update_loop_absent:
  "\<forall>u \<in> set (db_keys db). dbk_ID u \<noteq> dbk_ID key \<Longrightarrow>
   TempDB_Update_loop db i key now = (Some ErrKeyIDNotFound, db)"
proof (induction "length (db_keys db) - i" arbitrary: i)
  case 0
  then show ?case by (subst TempDB_Update_loop.simps) simp
next
  case (Suc n)
  then have lt: "i < length (db_keys db)" and n: "n = length (db_keys db) - Suc i" by simp_all
  from lt Suc.prems have "dbk_ID (db_keys db ! i) \<noteq> dbk_ID key" by simp
  with Suc.hyps(1) [OF n] Suc.prems lt show ?case by (subst TempDB_Update_loop.simps) simp
qed


lemma TempDB_Update_found:
  assumes "db_err db = None" and "db_keys db = pre @ dbk # post"
    and "\<forall>u \<in> set pre. dbk_ID u \<noteq> dbk_ID key" and "dbk_ID dbk = dbk_ID key"
  shows "TempDB_Update db key now =
     (if dbk_DBVersion dbk = dbk_DBVersion key
      then (None, db\<lparr>db_keys := pre @ key\<lparr>dbk_DBVersion := now\<rparr> # post\<rparr>)
      else (Some ErrDBVersion, db))"
  using assms TempDB_Update_loop_found [of 0 pre key dbk db post now]
  by (simp add: TempDB_Update_def)

lemma TempDB_Update_absent:
  assumes "db_err db = None" and "\<forall>u \<in> set (db_keys db). dbk_ID u \<noteq> dbk_ID key"
  shows "TempDB_Update db key now = (Some ErrKeyIDNotFound, db)"
  using assms by (simp add: TempDB_Update_def TempDB_Update_loop_absent)

lemma TempDB_Update_injected:
  "db_err db = Some e \<Longrightarrow> TempDB_Update db key now = (Some e, db)"
  by (simp add: TempDB_Update_def)

lemma TempDB_Update_success_iff:
  "fst (TempDB_Update db key now) = None \<longleftrightarrow>
     db_err db = None \<and>
     (\<exists>pre dbk post. db_keys db = pre @ dbk # post \<and> (\<forall>u \<in> set pre. dbk_ID u \<noteq> dbk_ID key)
        \<and> dbk_ID dbk = dbk_ID key \<and> dbk_DBVersion dbk = dbk_DBVersion key)"
proof (cases "db_err db")
  case (Some e)
  then show ?thesis by (simp add: TempDB_Update_injected)
next
  case None
  show ?thesis
  proof (cases "\<exists>u \<in> set (db_keys db). dbk_ID u = dbk_ID key")
    case False
    then have ab: "\<forall>u \<in> set (db_keys db). dbk_ID u \<noteq> dbk_ID key" by blast
    have "\<not> (\<exists>pre dbk post. db_keys db = pre @ dbk # post \<and> dbk_ID dbk = dbk_ID key)"
      using ab by auto
    with None ab show ?thesis by (auto simp: TempDB_Update_absent)
  next
    case True
    then obtain pre dbk post where
      s: "db_keys db = pre @ dbk # post" "dbk_ID dbk = dbk_ID key"
         "\<forall>u \<in> set pre. dbk_ID u \<noteq> dbk_ID key"
      using split_list_first_prop [of "db_keys db" "\<lambda>u. dbk_ID u = dbk_ID key"] by blast
    have u: "TempDB_Update db key now =
       (if dbk_DBVersion dbk = dbk_DBVersion key
        then (None, db\<lparr>db_keys := pre @ key\<lparr>dbk_DBVersion := now\<rparr> # post\<rparr>)
        else (Some ErrDBVersion, db))"
      using None s by (simp add: TempDB_Update_found)
    show ?thesis
    proof
      assume ok: "fst (TempDB_Update db key now) = None"
      with u have "dbk_DBVersion dbk = dbk_DBVersion key" by (simp split: if_splits)
      with None s show "db_err db = None \<and>
        (\<exists>pre dbk post. db_keys db = pre @ dbk # post \<and> (\<forall>u \<in> set pre. dbk_ID u \<noteq> dbk_ID key)
           \<and> dbk_ID dbk = dbk_ID key \<and> dbk_DBVersion dbk = dbk_DBVersion key)"
        by blast
    next
      assume "db_err db = None \<and>
        (\<exists>pre dbk post. db_keys db = pre @ dbk # post \<and> (\<forall>u \<in> set pre. dbk_ID u \<noteq> dbk_ID key)
           \<and> dbk_ID dbk = dbk_ID key \<and> dbk_DBVersion dbk = dbk_DBVersion key)"
      then obtain pre' dbk' post' where
        s': "db_keys db = pre' @ dbk' # post'" "\<forall>u \<in> set pre'. dbk_ID u \<noteq> dbk_ID key"
            "dbk_ID dbk' = dbk_ID key" "dbk_DBVersion dbk' = dbk_DBVersion key"
        by blast
      with None show "fst (TempDB_Update db key now) = None"
        by (simp add: TempDB_Update_found)
    qed
  qed
qed

lemma TempDB_Update_failure_unchanged:
  "fst (TempDB_Update db key now) \<noteq> None \<Longrightarrow> snd (TempDB_Update db key now) = db"
proof (cases "db_err db")
  case (Some e)
  then show ?thesis by (simp add: TempDB_Update_injected)
next
  case None
  assume f: "fst (TempDB_Update db key now) \<noteq> None"
  show ?thesis
  proof (cases "\<exists>u \<in> set (db_keys db). dbk_ID u = dbk_ID key")
    case False
    with None show ?thesis by (simp add: TempDB_Update_absent)
  next
    case True
    then obtain pre dbk post where
      s: "db_keys db = pre @ dbk # post" "dbk_ID dbk = dbk_ID key"
         "\<forall>u \<in> set pre. dbk_ID u \<noteq> dbk_ID key"
      using split_list_first_prop [of "db_keys db" "\<lambda>u. dbk_ID u = dbk_ID key"] by blast
    with None f show ?thesis
      using TempDB_Update_found [of db pre dbk post key now] by (simp split: if_splits)
  qed
qed

text \<open>
  Claim C5, as amended. On an in-memory DB with no injected error, \<open>Update(key)\<close>
  succeeds if and only if a record with the id of \<open>key\<close> is stored and the token of the
  first such record equals the token of \<open>key\<close>; on success that record is replaced by
  \<open>key\<close> with its token set to the clock reading \<open>now\<close> taken during the call (a
  strictly newer token exactly when the clock reads later than the old token); when the
  record exists but the token differs the call fails with \<open>ErrDBVersion\<close>; when no
  record has the id it fails with \<open>ErrKeyIDNotFound\<close>. With an injected error the call
  fails with that error. In every failure case the state is unchanged.
\<close>

theorem TempDB_Update_optimistic:
  "(db_err db = None \<longrightarrow>
      (\<forall>pre dbk post. db_keys db = pre @ dbk # post \<and> (\<forall>u \<in> set pre. dbk_ID u \<noteq> dbk_ID key)
           \<and> dbk_ID dbk = dbk_ID key \<longrightarrow>
         TempDB_Update db key now =
           (if dbk_DBVersion dbk = dbk_DBVersion key
            then (None, db\<lparr>db_keys := pre @ key\<lparr>dbk_DBVersion := now\<rparr> # post\<rparr>)
            else (Some ErrDBVersion, db)))
      \<and> ((\<forall>u \<in> set (db_keys db). dbk_ID u \<noteq> dbk_ID key) \<longrightarrow>
         TempDB_Update db key now = (Some ErrKeyIDNotFound, db)))
   \<and> (\<forall>e. db_err db = Some e \<longrightarrow> TempDB_Update db key now = (Some e, db))
   \<and> (fst (TempDB_Update db key now) = None \<longleftrightarrow>
        db_err db = None \<and>
        (\<exists>pre dbk post. db_keys db = pre @ dbk # post \<and> (\<forall>u \<in> set pre. dbk_ID u \<noteq> dbk_ID key)
           \<and> dbk_ID dbk = dbk_ID key \<and> dbk_DBVersion dbk = dbk_DBVersion key))
   \<and> (fst (TempDB_Update db key now) \<noteq> None \<longrightarrow> snd (TempDB_Update db key now) = db)"
proof (intro conjI impI allI)
  fix pre dbk post
  assume "db_err db = None"
    and "db_keys db = pre @ dbk # post \<and> (\<forall>u \<in> set pre. dbk_ID u \<noteq> dbk_ID key)
           \<and> dbk_ID dbk = dbk_ID key"
  then show "TempDB_Update db key now =
           (if dbk_DBVersion dbk = dbk_DBVersion key
            then (None, db\<lparr>db_keys := pre @ key\<lparr>dbk_DBVersion := now\<rparr> # post\<rparr>)
            else (Some ErrDBVersion, db))"
    by (intro TempDB_Update_found) simp_all
next
  assume "db_err db = None" and "\<forall>u \<in> set (db_keys db). dbk_ID u \<noteq> dbk_ID key"
  then show "TempDB_Update db key now = (Some ErrKeyIDNotFound, db)"
    by (rule TempDB_Update_absent)
next
  fix e assume "db_err db = Some e"
  then show "TempDB_Update db key now = (Some e, db)"
    by (rule TempDB_Update_injected)
next
  show "fst (TempDB_Update db key now) = None \<longleftrightarrow>
        db_err db = None \<and>
        (\<exists>pre dbk post. db_keys db = pre @ dbk # post \<and> (\<forall>u \<in> set pre. dbk_ID u \<noteq> dbk_ID key)
           \<and> dbk_ID dbk = dbk_ID key \<and> dbk_DBVersion dbk = dbk_DBVersion key)"
    by (rule TempDB_Update_success_iff)
next
  assume "fst (TempDB_Update db key now) \<noteq> None"
  then show "snd (TempDB_Update db key now) = db"
    by (rule TempDB_Update_failure_unchanged)
qed


text \<open>
  A run of the theorem on a database with records \<open>a\<close> (token 7) and \<open>b\<close> (token 8), the
  clock reading 9: a matching token, a stale token, an unknown id, an injected error.
\<close>

definition mkDBKey :: "string \<Rightarrow> string \<Rightarrow> int64 \<Rightarrow> DBKey" where
  "mkDBKey i h t =
     \<lparr>dbk_ID = i, dbk_ACL = [], dbk_VersionList = [], dbk_VersionHash = h, dbk_DBVersion = t\<rparr>"

theorem TempDB_Update_optimistic_witness:
  "TempDB_Update \<lparr>db_keys = [mkDBKey ''a'' ''h'' 7, mkDBKey ''b'' ''h'' 8], db_err = None\<rparr>
       (mkDBKey ''b'' ''h2'' 8) 9
     = (None, \<lparr>db_keys = [mkDBKey ''a'' ''h'' 7, mkDBKey ''b'' ''h2'' 9], db_err = None\<rparr>)
   \<and> TempDB_Update \<lparr>db_keys = [mkDBKey ''a'' ''h'' 7, mkDBKey ''b'' ''h'' 8], db_err = None\<rparr>
       (mkDBKey ''b'' ''h2'' 5) 9
     = (Some ErrDBVersion,
        \<lparr>db_keys = [mkDBKey ''a'' ''h'' 7, mkDBKey ''b'' ''h'' 8], db_err = None\<rparr>)
   \<and> TempDB_Update \<lparr>db_keys = [mkDBKey ''a'' ''h'' 7, mkDBKey ''b'' ''h'' 8], db_err = None\<rparr>
       (mkDBKey ''c'' ''h2'' 8) 9
     = (Some ErrKeyIDNotFound,
        \<lparr>db_keys = [mkDBKey ''a'' ''h'' 7, mkDBKey ''b'' ''h'' 8], db_err = None\<rparr>)
   \<and> TempDB_Update \<lparr>db_keys = [mkDBKey ''a'' ''h'' 7, mkDBKey ''b'' ''h'' 8],
                      db_err = Some (ErrInjected ''down'')\<rparr>
       (mkDBKey ''b'' ''h2'' 8) 9
     = (Some (ErrInjected ''down''),
        \<lparr>db_keys = [mkDBKey ''a'' ''h'' 7, mkDBKey ''b'' ''h'' 8],
         db_err = Some (ErrInjected ''down'')\<rparr>)"
proof -
  let ?a = "mkDBKey ''a'' ''h'' 7" and ?b = "mkDBKey ''b'' ''h'' 8"
  let ?db = "\<lparr>db_keys = [?a, ?b], db_err = None\<rparr>"
  let ?dbe = "\<lparr>db_keys = [?a, ?b], db_err = Some (ErrInjected ''down'')\<rparr>"
  have ok: "db_err ?db = None" and inj: "db_err ?dbe = Some (ErrInjected ''down'')"
    by simp_all
  have split: "\<And>h t. db_keys ?db = [?a] @ ?b # []
        \<and> (\<forall>u \<in> set [?a]. dbk_ID u \<noteq> dbk_ID (mkDBKey ''b'' h t))
        \<and> dbk_ID ?b = dbk_ID (mkDBKey ''b'' h t)"
    and absent: "\<forall>u \<in> set (db_keys ?db). dbk_ID u \<noteq> dbk_ID (mkDBKey ''c'' ''h2'' 8)"
    by (simp_all add: mkDBKey_def)
  from TempDB_Update_optimistic [of ?db "mkDBKey ''b'' ''h2'' 8" 9, THEN conjunct1, THEN mp, OF ok,
      THEN conjunct1, rule_format, OF split]
  have r1: "TempDB_Update ?db (mkDBKey ''b'' ''h2'' 8) 9
      = (None, \<lparr>db_keys = [?a, mkDBKey ''b'' ''h2'' 9], db_err = None\<rparr>)"
    by (simp add: mkDBKey_def)
  from TempDB_Update_optimistic [of ?db "mkDBKey ''b'' ''h2'' 5" 9, THEN conjunct1, THEN mp, OF ok,
      THEN conjunct1, rule_format, OF split]
  have r2: "TempDB_Update ?db (mkDBKey ''b'' ''h2'' 5) 9 = (Some ErrDBVersion, ?db)"
    by (simp add: mkDBKey_def)
  from TempDB_Update_optimistic [of ?db "mkDBKey ''c'' ''h2'' 8" 9, THEN conjunct1, THEN mp, OF ok,
      THEN conjunct2, THEN mp, OF absent]
  have r3: "TempDB_Update ?db (mkDBKey ''c'' ''h2'' 8) 9 = (Some ErrKeyIDNotFound, ?db)" .
  from TempDB_Update_optimistic [of ?dbe "mkDBKey ''b'' ''h2'' 8" 9, THEN conjunct2, THEN conjunct1,
      rule_format, OF inj]
  have r4: "TempDB_Update ?dbe (mkDBKey ''b'' ''h2'' 8) 9 = (Some (ErrInjected ''down''), ?dbe)" .
  from r1 r2 r3 r4 show ?thesis by blast
qed

text \<open>
  Claim C5 as stated fails in two places. A database whose error has been set by
  \<open>SetError\<close> rejects an update although the record is stored under the same token, with
  an error that is neither \<open>ErrDBVersion\<close> nor \<open>ErrKeyIDNotFound\<close>. And the new token
  is whatever the wall clock reads: when the clock reads 8 again (or less), the token
  written over the old token 8 is not strictly newer.
\<close>

theorem TempDB_Update_counterexample:
  "TempDB_Update \<lparr>db_keys = [mkDBKey ''b'' ''h'' 8], db_err = Some (ErrInjected ''down'')\<rparr>
       (mkDBKey ''b'' ''h'' 8) 9
     = (Some (ErrInjected ''down''),
        \<lparr>db_keys = [mkDBKey ''b'' ''h'' 8], db_err = Some (ErrInjected ''down'')\<rparr>)
   \<and> TempDB_Update \<lparr>db_keys = [mkDBKey ''b'' ''h'' 8], db_err = None\<rparr> (mkDBKey ''b'' ''h'' 8) 8
     = (None, \<lparr>db_keys = [mkDBKey ''b'' ''h'' 8], db_err = None\<rparr>)
   \<and> TempDB_Update \<lparr>db_keys = [mkDBKey ''b'' ''h'' 8], db_err = None\<rparr> (mkDBKey ''b'' ''h'' 8) 5
     = (None, \<lparr>db_keys = [mkDBKey ''b'' ''h'' 5], db_err = None\<rparr>)"
  by (simp add: TempDB_Update_def TempDB_Update_loop.simps mkDBKey_def DBKey_Copy_def)

section \<open>SHA-256 and hex encoding\<close>

text \<open>
  \<open>KeyVersionList.Hash\<close> calls \<open>sha256.Sum256\<close> and \<open>hex.EncodeToString\<close> of Go's
  standard library. \<open>Sum256\<close> is SHA-256 as FIPS 180-4 defines it: the message is padded
  with \<open>0x80\<close>, zeros and its bit length to a multiple of 64 bytes; each block runs 64
  rounds over a schedule of sixteen 32-bit words that is extended as it is consumed.
  32-bit words are naturals below \<open>2 ^ 32\<close>, with the wrap-around of the additions written
  out in \<open>add32\<close>.
  The sixty-four round constants are listed in decimal.
\<close>

definition sha256_K :: "nat list" where
  "sha256_K =
    [1116352408, 1899447441, 3049323471, 3921009573, 961987163, 1508970993,
     2453635748, 2870763221, 3624381080, 310598401, 607225278, 1426881987,
     1925078388, 2162078206, 2614888103, 3248222580, 3835390401, 4022224774,
     264347078, 604807628, 770255983, 1249150122, 1555081692, 1996064986,
     2554220882, 2821834349, 2952996808, 3210313671, 3336571891, 3584528711,
     113926993, 338241895, 666307205, 773529912, 1294757372, 1396182291,
     1695183700, 1986661051, 2177026350, 2456956037, 2730485921, 2820302411,
     3259730800, 3345764771, 3516065817, 3600352804, 4094571909, 275423344,
     430227734, 506948616, 659060556, 883997877, 958139571, 1322822218,
     1537002063, 1747873779, 1955562222, 2024104815, 2227730452, 2361852424,
     2428436474, 2756734187, 3204031479, 3329325298]"

definition sha256_init :: "nat list" where
  "sha256_init = [0x6a09e667, 0xbb67ae85, 0x3c6ef372, 0xa54ff53a,
                  0x510e527f, 0x9b05688c, 0x1f83d9ab, 0x5be0cd19]"

definition add32 :: "nat \<Rightarrow> nat \<Rightarrow> nat" where
  "add32 x y = (x + y) mod 4294967296"

definition rotr :: "nat \<Rightarrow> nat \<Rightarrow> nat" where
  "rotr n x = x div 2 ^ n + (x mod 2 ^ n) * 2 ^ (32 - n)"

definition Ch :: "nat \<Rightarrow> nat \<Rightarrow> nat \<Rightarrow> nat" where
  "Ch x y z = (x AND y) XOR ((4294967295 - x) AND z)"
definition Maj :: "nat \<Rightarrow> nat \<Rightarrow> nat \<Rightarrow> nat" where
  "Maj x y z = (x AND y) XOR (x AND z) XOR (y AND z)"
definition bsig0 :: "nat \<Rightarrow> nat" where
  "bsig0 x = rotr 2 x XOR rotr 13 x XOR rotr 22 x"
definition bsig1 :: "nat \<Rightarrow> nat" where
  "bsig1 x = rotr 6 x XOR rotr 11 x XOR rotr 25 x"
definition ssig0 :: "nat \<Rightarrow> nat" where
  "ssig0 x = rotr 7 x XOR rotr 18 x XOR x div 2 ^ 3"
definition ssig1 :: "nat \<Rightarrow> nat" where
  "ssig1 x = rotr 17 x XOR rotr 19 x XOR x div 2 ^ 10"

fun sha256_next :: "nat list \<Rightarrow> nat list" where
  "sha256_next [w0, w1, w2, w3, w4, w5, w6, w7, w8, w9, w10, w11, w12, w13, w14, w15] =
     [w1, w2, w3, w4, w5, w6, w7, w8, w9, w10, w11, w12, w13, w14, w15,
      add32 (add32 (add32 (ssig1 w14) w9) (ssig0 w1)) w0]"
| "sha256_next ws = ws"

fun sha256_mix :: "nat \<Rightarrow> nat \<Rightarrow> nat list \<Rightarrow> nat list" where
  "sha256_mix t1 t2 [a, b, c, d, e, f, g, h] = [add32 t1 t2, a, b, c, add32 d t1, e, f, g]"
| "sha256_mix t1 t2 s = s"

fun sha256_round :: "nat \<Rightarrow> nat \<Rightarrow> nat list \<Rightarrow> nat list" where
  "sha256_round k w [a, b, c, d, e, f, g, h] =
     sha256_mix (add32 (add32 (add32 (add32 h (bsig1 e)) (Ch e f g)) k) w)
                (add32 (bsig0 a) (Maj a b c)) [a, b, c, d, e, f, g, h]"
| "sha256_round k w s = s"

fun sha256_rounds :: "nat list \<Rightarrow> nat list \<Rightarrow> nat list \<Rightarrow> nat list" where
  "sha256_rounds [] ws s = s"
| "sha256_rounds (k # ks) ws s = sha256_rounds ks (sha256_next ws) (sha256_round k (hd ws) s)"

fun be32 :: "byte list \<Rightarrow> nat list" where
  "be32 (a # b # c # d # bs) =
     (unat a * 16777216 + unat b * 65536 + unat c * 256 + unat d) # be32 bs"
| "be32 bs = []"

definition sha256_block :: "nat list \<Rightarrow> byte list \<Rightarrow> nat list" where
  "sha256_block hs blk = map2 add32 hs (sha256_rounds sha256_K (be32 blk) hs)"

function sha256_blocks :: "nat list \<Rightarrow> byte list \<Rightarrow> nat list" where
  "sha256_blocks hs bs =
     (if length bs < 64 then hs else sha256_blocks (sha256_block hs (take 64 bs)) (drop 64 bs))"
  by pat_completeness auto
termination
  by (relation "measure (\<lambda>(hs, bs). length bs)") auto

declare sha256_blocks.simps [simp del]

definition byte_of :: "nat \<Rightarrow> byte" where
  "byte_of x = of_nat (x mod 256)"

definition bytes_be32 :: "nat \<Rightarrow> byte list" where
  "bytes_be32 x = [byte_of (x div 2 ^ 24), byte_of (x div 2 ^ 16), byte_of (x div 2 ^ 8), byte_of x]"

definition bytes_be64 :: "nat \<Rightarrow> byte list" where
  "bytes_be64 x = [byte_of (x div 2 ^ 56), byte_of (x div 2 ^ 48), byte_of (x div 2 ^ 40),
     byte_of (x div 2 ^ 32), byte_of (x div 2 ^ 24), byte_of (x div 2 ^ 16), byte_of (x div 2 ^ 8),
     byte_of x]"

definition sha256_pad :: "byte list \<Rightarrow> byte list" where
  "sha256_pad m =
     m @ [0x80] @ replicate ((119 - length m mod 64) mod 64) 0 @ bytes_be64 (8 * length m)"

definition Sum256 :: "byte list \<Rightarrow> byte list" where
  "Sum256 m = concat (map bytes_be32 (sha256_blocks sha256_init (sha256_pad m)))"

definition hexdigit :: "nat \<Rightarrow> char" where
  "hexdigit n = ''0123456789abcdef'' ! n"

definition EncodeToString :: "byte list \<Rightarrow> string" where
  "EncodeToString bs = concat (map (\<lambda>b. [hexdigit (unat b div 16), hexdigit (unat b mod 16)]) bs)"


lemma replicate_num: "replicate (numeral k) x = x # replicate (pred_numeral k) x"
  by (simp add: numeral_eq_Suc)

lemmas sha_eval = sha256_K_def sha256_init_def rotr_def Ch_def Maj_def bsig0_def bsig1_def
  ssig0_def ssig1_def sha256_block_def byte_of_def bytes_be32_def bytes_be64_def sha256_pad_def
  Sum256_def add32_def hexdigit_def EncodeToString_def sha256_blocks.simps replicate_num

section \<open>KeyVersionList.Hash\<close>

text \<open>The order of \<open>Len\<close>, \<open>Swap\<close> and \<open>Less\<close>: by status, then by id.\<close>

definition Less :: "KeyVersion \<Rightarrow> KeyVersion \<Rightarrow> bool" where
  "Less a b = (if kv_Status a = kv_Status b then kv_ID a < kv_ID b
               else kv_Status a < kv_Status b)"

text \<open>
  \<open>sort.Sort(kvl)\<close> reorders the slice so that it is ordered by \<open>Less\<close>; the library
  does not say which of the ordered permutations it produces. The model sorts by
  insertion; \<open>Hash_loop_any_sort\<close> below shows that the buffer \<open>Hash\<close> fills is the
  same for every permutation ordered by \<open>Less\<close>.
\<close>

fun insert_Less :: "KeyVersion \<Rightarrow> KeyVersionList \<Rightarrow> KeyVersionList" where
  "insert_Less x [] = [x]"
| "insert_Less x (y # ys) = (if Less x y then x # y # ys else y # insert_Less x ys)"

fun Sort :: "KeyVersionList \<Rightarrow> KeyVersionList" where
  "Sort [] = []"
| "Sort (x # xs) = insert_Less x (Sort xs)"

text \<open>\<open>binary.LittleEndian.PutUint64(buf[offset:], v)\<close> writes eight bytes at \<open>offset\<close>.\<close>

definition le_bytes :: "uint64 \<Rightarrow> byte list" where
  "le_bytes v = [ucast v, ucast (drop_bit 8 v), ucast (drop_bit 16 v), ucast (drop_bit 24 v),
     ucast (drop_bit 32 v), ucast (drop_bit 40 v), ucast (drop_bit 48 v), ucast (drop_bit 56 v)]"

definition PutUint64 :: "byte list \<Rightarrow> nat \<Rightarrow> uint64 \<Rightarrow> byte list" where
  "PutUint64 buf offset v = take offset buf @ le_bytes v @ drop (offset + 8) buf"

text \<open>
  The loop of \<open>Hash\<close> over the sorted list: the id of every version that is not
  \<open>Inactive\<close> is written at \<open>offset\<close>, which then moves on by 8. The buffer has
  \<open>8 * len(kvl)\<close> zero bytes, so every write is inside it, and the bytes that no write
  reaches stay zero and are hashed with the rest.
\<close>

fun Hash_loop :: "KeyVersionList \<Rightarrow> byte list \<Rightarrow> nat \<Rightarrow> byte list" where
  "Hash_loop [] buf offset = buf"
| "Hash_loop (kv # kvl) buf offset =
     (if kv_Status kv \<noteq> Inactive
      then Hash_loop kvl (PutUint64 buf offset (kv_ID kv)) (offset + 8)
      else Hash_loop kvl buf offset)"

definition Hash_buf :: "KeyVersionList \<Rightarrow> byte list" where
  "Hash_buf kvl = Hash_loop (Sort kvl) (replicate (8 * length kvl) 0) 0"

definition KeyVersionList_Hash :: "KeyVersionList \<Rightarrow> string" where
  "KeyVersionList_Hash kvl = EncodeToString (Sum256 (Hash_buf kvl))"

text \<open>The sort key that \<open>Less\<close> compares, in the lexicographic order of pairs.\<close>

definition sort_key_of :: "KeyVersion \<Rightarrow> VersionStatus \<times> uint64" where
  "sort_key_of v = (kv_Status v, kv_ID v)"

definition in_use :: "KeyVersion \<Rightarrow> bool" where
  "in_use v \<longleftrightarrow> kv_Status v \<noteq> Inactive"

lemma Less_key: "Less a b \<longleftrightarrow> sort_key_of a < sort_key_of b"
  by (auto simp: Less_def sort_key_of_def less_prod_def)

lemma not_Less_key: "\<not> Less b a \<longleftrightarrow> sort_key_of a \<le> sort_key_of b"
  by (simp add: Less_key not_less)

lemma mset_insert_Less: "mset (insert_Less x ys) = add_mset x (mset ys)"
  by (induction ys) auto

lemma mset_Sort: "mset (Sort xs) = mset xs"
  by (induction xs) (auto simp: mset_insert_Less)

lemma set_insert_Less: "set (insert_Less x ys) = insert x (set ys)"
  by (induction ys) auto

lemma sorted_insert_Less:
  "sorted (map sort_key_of ys) \<Longrightarrow> sorted (map sort_key_of (insert_Less x ys))"
  by (induction ys) (auto simp: set_insert_Less Less_key)

lemma sorted_Sort: "sorted (map sort_key_of (Sort xs))"
  by (induction xs) (auto simp: sorted_insert_Less)

lemma length_le_bytes: "length (le_bytes v) = 8"
  by (simp add: le_bytes_def)

lemma Hash_loop_Cons:
  "in_use kv \<Longrightarrow>
   Hash_loop (kv # kvl) buf offset = Hash_loop kvl (PutUint64 buf offset (kv_ID kv)) (offset + 8)"
  "\<not> in_use kv \<Longrightarrow> Hash_loop (kv # kvl) buf offset = Hash_loop kvl buf offset"
  by (simp_all add: in_use_def)

lemma Hash_loop_eq:
  "offset + 8 * length kvl \<le> length buf \<Longrightarrow>
   Hash_loop kvl buf offset =
     take offset buf @ concat (map (\<lambda>v. le_bytes (kv_ID v)) (filter in_use kvl))
       @ drop (offset + 8 * length (filter in_use kvl)) buf"
proof (induction kvl arbitrary: buf offset)
  case Nil
  then show ?case by simp
next
  case (Cons kv kvl)
  show ?case
  proof (cases "in_use kv")
    case False
    with Cons show ?thesis by (simp add: Hash_loop_Cons del: Hash_loop.simps)
  next
    case True
    let ?buf = "PutUint64 buf offset (kv_ID kv)"
    have len: "length ?buf = length buf"
      using Cons.prems by (simp add: PutUint64_def length_le_bytes)
    have tk: "take (offset + 8) ?buf = take offset buf @ le_bytes (kv_ID kv)"
      using Cons.prems by (simp add: PutUint64_def length_le_bytes)
    have dr: "\<And>n. drop (offset + 8 + n) ?buf = drop (offset + 8 + n) buf"
      using Cons.prems by (simp add: PutUint64_def length_le_bytes ac_simps)
    have "Hash_loop kvl ?buf (offset + 8) =
        take (offset + 8) ?buf @ concat (map (\<lambda>v. le_bytes (kv_ID v)) (filter in_use kvl))
          @ drop (offset + 8 + 8 * length (filter in_use kvl)) ?buf"
      using Cons.prems len by (intro Cons.IH) simp
    with True tk dr show ?thesis by (simp add: Hash_loop_Cons add.assoc del: Hash_loop.simps)
  qed
qed

lemma Hash_loop_zero_buf:
  "Hash_loop kvl (replicate (8 * length kvl) 0) 0 =
     concat (map (\<lambda>v. le_bytes (kv_ID v)) (filter in_use kvl))
       @ replicate (8 * (length kvl - length (filter in_use kvl))) 0"
  by (simp add: Hash_loop_eq diff_mult_distrib2)

text \<open>
  Two lists ordered by \<open>Less\<close> whose versions in use have the same (status, id) pairs,
  counted with multiplicity, list those pairs in the same order.
\<close>

lemma in_use_keys_determined:
  assumes "sorted (map sort_key_of as)" and "sorted (map sort_key_of bs)"
    and "mset (map sort_key_of (filter in_use as)) = mset (map sort_key_of (filter in_use bs))"
  shows "map sort_key_of (filter in_use as) = map sort_key_of (filter in_use bs)"
proof -
  have "sorted (map sort_key_of (filter in_use as))" "sorted (map sort_key_of (filter in_use bs))"
    using assms(1,2) by (simp_all add: sorted_wrt_map sorted_wrt_filter)
  with assms(3) show ?thesis
    by (metis properties_for_sort)
qed

lemma ids_of_keys: "map kv_ID xs = map snd (map sort_key_of xs)"
  by (simp add: sort_key_of_def)

lemma Hash_loop_any_sort:
  assumes "mset ys = mset kvl" and "sorted_wrt (\<lambda>a b. \<not> Less b a) ys"
  shows "Hash_loop ys (replicate (8 * length ys) 0) 0 = Hash_buf kvl"
proof -
  have s: "sorted (map sort_key_of ys)"
    using assms(2) by (simp add: sorted_wrt_map not_Less_key)
  have m: "mset (filter in_use ys) = mset (filter in_use (Sort kvl))"
    using assms(1) by (simp add: mset_Sort)
  then have "mset (map sort_key_of (filter in_use ys)) = mset (map sort_key_of (filter in_use (Sort kvl)))"
    by simp
  with s sorted_Sort have "map sort_key_of (filter in_use ys) = map sort_key_of (filter in_use (Sort kvl))"
    by (rule in_use_keys_determined)
  then have ids: "map kv_ID (filter in_use ys) = map kv_ID (filter in_use (Sort kvl))"
    by (simp add: ids_of_keys)
  have l: "length ys = length kvl" "length (Sort kvl) = length kvl"
    using assms(1) mset_Sort [of kvl] by (auto dest: mset_eq_length)
  have c: "\<And>xs. concat (map (\<lambda>v. le_bytes (kv_ID v)) xs) = concat (map le_bytes (map kv_ID xs))"
    by (simp add: comp_def)
  from ids have fl: "length (filter in_use ys) = length (filter in_use (Sort kvl))"
    by (metis length_map)
  have "Hash_loop ys (replicate (8 * length ys) 0) 0 =
      concat (map le_bytes (map kv_ID (filter in_use ys)))
        @ replicate (8 * (length ys - length (filter in_use ys))) 0"
    by (simp only: Hash_loop_zero_buf c)
  also have "\<dots> = concat (map le_bytes (map kv_ID (filter in_use (Sort kvl))))
        @ replicate (8 * (length (Sort kvl) - length (filter in_use (Sort kvl)))) 0"
    by (simp only: ids fl l)
  also have "\<dots> = Hash_loop (Sort kvl) (replicate (8 * length (Sort kvl)) 0) 0"
    by (simp only: Hash_loop_zero_buf c)
  also have "\<dots> = Hash_buf kvl"
    by (simp only: Hash_buf_def l)
  finally show ?thesis .
qed

text \<open>What \<open>Hash\<close> feeds to SHA-256, in closed form.\<close>

lemma Hash_buf_eq:
  "Hash_buf kvl =
     concat (map le_bytes (map snd (sort (map sort_key_of (filter in_use kvl)))))
       @ replicate (8 * length (filter (\<lambda>v. kv_Status v = Inactive) kvl)) 0"
proof -
  have "sorted (map sort_key_of (filter in_use (Sort kvl)))"
    using sorted_Sort [of kvl] by (simp add: sorted_wrt_map sorted_wrt_filter)
  moreover have "mset (map sort_key_of (filter in_use (Sort kvl)))
      = mset (map sort_key_of (filter in_use kvl))"
    by (simp add: mset_Sort)
  ultimately have k: "sort (map sort_key_of (filter in_use kvl))
      = map sort_key_of (filter in_use (Sort kvl))"
    by (rule properties_for_sort [rotated])
  have l: "length (Sort kvl) = length kvl"
    using mset_Sort [of kvl] by (auto dest: mset_eq_length)
  have "length (filter in_use (Sort kvl)) = length (filter in_use kvl)"
    using mset_Sort [of kvl] by (metis mset_filter size_mset)
  moreover have "length kvl = length (filter in_use kvl)
      + length (filter (\<lambda>v. kv_Status v = Inactive) kvl)"
    using sum_length_filter_compl [of in_use kvl] by (simp add: in_use_def)
  ultimately have n: "length (Sort kvl) - length (filter in_use (Sort kvl))
      = length (filter (\<lambda>v. kv_Status v = Inactive) kvl)"
    using l by simp
  have "Hash_buf kvl = Hash_loop (Sort kvl) (replicate (8 * length (Sort kvl)) 0) 0"
    by (simp only: Hash_buf_def l)
  also have "\<dots> = concat (map le_bytes (map kv_ID (filter in_use (Sort kvl))))
        @ replicate (8 * (length (Sort kvl) - length (filter in_use (Sort kvl)))) 0"
    by (simp only: Hash_loop_zero_buf) (simp add: comp_def)
  finally show ?thesis
    by (simp only: n k ids_of_keys)
qed

text \<open>
  What the hash does ignore. Two version lists in which the versions that are not
  \<open>Inactive\<close> carry the same (status, id) pairs (so: the same Primary id and the same
  Active ids) and which hold the same number of \<open>Inactive\<close> versions have the same
  hash, whatever the ids of the \<open>Inactive\<close> versions and whatever the data and creation
  time of any version.
\<close>

lemma KeyVersionList_Hash_fingerprint:
  assumes "mset (map sort_key_of (filter in_use xs)) = mset (map sort_key_of (filter in_use ys))"
    and "length (filter (\<lambda>v. kv_Status v = Inactive) xs) = length (filter (\<lambda>v. kv_Status v = Inactive) ys)"
  shows "KeyVersionList_Hash xs = KeyVersionList_Hash ys"
proof -
  from assms(1) have "sort (map sort_key_of (filter in_use xs)) = sort (map sort_key_of (filter in_use ys))"
    by (metis mset_sort sorted_sort properties_for_sort)
  with assms(2) have "Hash_buf xs = Hash_buf ys"
    by (simp only: Hash_buf_eq)
  then show ?thesis
    by (simp only: KeyVersionList_Hash_def)
qed


text \<open>
  A run of the theorem: both lists have Primary 1, Active 2 and one Inactive version;
  order, data, creation times and the Inactive ids differ.
\<close>

lemma KeyVersionList_Hash_fingerprint_example:
  "KeyVersionList_Hash
     [\<lparr>kv_ID = 2, kv_Data = [1], kv_Status = Active, kv_CreationTime = 5\<rparr>,
      \<lparr>kv_ID = 1, kv_Data = [], kv_Status = Primary, kv_CreationTime = 0\<rparr>,
      \<lparr>kv_ID = 7, kv_Data = [3], kv_Status = Inactive, kv_CreationTime = 2\<rparr>]
   = KeyVersionList_Hash
     [\<lparr>kv_ID = 1, kv_Data = [9, 9], kv_Status = Primary, kv_CreationTime = 8\<rparr>,
      \<lparr>kv_ID = 3, kv_Data = [], kv_Status = Inactive, kv_CreationTime = 1\<rparr>,
      \<lparr>kv_ID = 2, kv_Data = [4], kv_Status = Active, kv_CreationTime = 6\<rparr>]"
  by (rule KeyVersionList_Hash_fingerprint) (simp_all add: in_use_def sort_key_of_def enum_defs)

text \<open>
  The number of \<open>Inactive\<close> versions is not ignored: the buffer is allocated with eight
  bytes for every version of the list, the loop fills the first \<open>offset\<close> of them, and
  \<open>sha256.Sum256(buf)\<close> hashes the whole buffer, the eight zero bytes left over for each
  \<open>Inactive\<close> version included.
\<close>

lemma Hash_buf_one: "Hash_buf [mkVersion 1 Primary] = [1, 0, 0, 0, 0, 0, 0, 0]"
  by (simp add: Hash_buf_def mkVersion_def PutUint64_def le_bytes_def enum_defs)

lemma Hash_buf_two:
  "Hash_buf [mkVersion 1 Primary, mkVersion 2 Inactive]
     = [1, 0, 0, 0, 0, 0, 0, 0, 0, 0, 0, 0, 0, 0, 0, 0]"
  by (simp add: Hash_buf_def mkVersion_def PutUint64_def le_bytes_def enum_defs Less_def
      replicate_num)

lemma Sum256_one:
  "EncodeToString (Sum256 [1, 0, 0, 0, 0, 0, 0, 0])
     = ''7c9fa136d4413fa6173637e883b6998d32e1d675f88cddff9dcbcf331820f4b8''"
  by (simp add: sha_eval)

lemma Sum256_two:
  "EncodeToString (Sum256 [1, 0, 0, 0, 0, 0, 0, 0, 0, 0, 0, 0, 0, 0, 0, 0])
     = ''4cbbd8ca5215b8d161aec181a74b694f4e24b001d5b081dc0030ed797a8973e0''"
  by (simp add: sha_eval)

text \<open>
  Claim C1 says that two lists with the same Primary id and the same Active ids have the
  same hash however many \<open>Inactive\<close> versions each holds, as the comment on \<open>Hash\<close>
  describes it (the Primary id followed by the Active ids). The code does not do that:
  a key with Primary version 1 alone hashes the eight bytes of the id; the same key
  with a further \<open>Inactive\<close> version 2 hashes sixteen bytes, and the two hashes differ.
\<close>

theorem KeyVersionList_Hash_pads_Inactive:
  "KeyVersionList_Hash [mkVersion 1 Primary]
     = ''7c9fa136d4413fa6173637e883b6998d32e1d675f88cddff9dcbcf331820f4b8''
   \<and> KeyVersionList_Hash [mkVersion 1 Primary, mkVersion 2 Inactive]
     = ''4cbbd8ca5215b8d161aec181a74b694f4e24b001d5b081dc0030ed797a8973e0''
   \<and> KeyVersionList_Hash [mkVersion 1 Primary]
     \<noteq> KeyVersionList_Hash [mkVersion 1 Primary, mkVersion 2 Inactive]"
  by (simp add: KeyVersionList_Hash_def Hash_buf_one Hash_buf_two Sum256_one Sum256_two)

section \<open>Package keydb: the AES-GCM cryptor\<close>

text \<open>
  AES-GCM itself is Go's standard library (\<open>crypto/aes\<close>, \<open>crypto/cipher\<close>). The
  cryptor is modelled over any AEAD, given by its \<open>Seal\<close> and \<open>Open\<close> (arguments: key,
  nonce, text, additional data) and its nonce size; \<open>Open\<close> returns \<open>None\<close> when
  authentication fails. \<open>AEAD_correct\<close> is the law the cryptor relies on: what was sealed
  under a key of an AES length and a nonce of the right size opens to the plaintext under
  the same key, nonce and additional data.
\<close>

record AEAD =
  aead_Seal :: "byte list \<Rightarrow> byte list \<Rightarrow> byte list \<Rightarrow> byte list \<Rightarrow> byte list"
  aead_Open :: "byte list \<Rightarrow> byte list \<Rightarrow> byte list \<Rightarrow> byte list \<Rightarrow> byte list option"
  aead_NonceSize :: nat

definition aes_key_length :: "nat \<Rightarrow> bool" where
  "aes_key_length n \<longleftrightarrow> n = 16 \<or> n = 24 \<or> n = 32"

definition AEAD_correct :: "AEAD \<Rightarrow> bool" where
  "AEAD_correct g \<longleftrightarrow>
     (\<forall>key nonce pt ad. aes_key_length (length key) \<longrightarrow> length nonce = aead_NonceSize g \<longrightarrow>
        aead_Open g key nonce (aead_Seal g key nonce pt ad) ad = Some pt)"

record aesGCMCryptor =
  c_keyData :: "byte list"
  c_version :: byte

text \<open>\<open>aes.NewCipher\<close> accepts keys of 16, 24 or 32 bytes and returns a \<open>KeySizeError\<close> otherwise.\<close>

definition aes_NewCipher :: "byte list \<Rightarrow> unit result" where
  "aes_NewCipher key =
     (if aes_key_length (length key) then Ok ()
      else Err (KeySizeError (length key)))"

text \<open>
  \<open>binary.PutUvarint\<close> writes seven bits per byte, low bits first, with the high bit set
  on every byte but the last; \<open>binary.PutVarint\<close> zig-zag encodes the signed value first.
  \<open>generateAD\<close> writes each into a zeroed buffer of \<open>MaxVarintLen64 = 10\<close> bytes and
  concatenates both whole buffers with the bytes of the key id.
\<close>

lemma unat_drop_bit_7: "unat (drop_bit 7 (x::uint64)) = unat x div 128"
  by (simp only: unat_drop_bit_eq) (simp add: drop_bit_eq_div)

function PutUvarint :: "uint64 \<Rightarrow> byte list" where
  "PutUvarint x = (if 0x80 \<le> x then (ucast x OR 0x80) # PutUvarint (drop_bit 7 x) else [ucast x])"
  by pat_completeness auto
termination
proof (relation "measure unat")
  show "wf (measure unat)" by simp
next
  fix x :: uint64
  assume "0x80 \<le> x"
  then have "128 \<le> unat x" by (simp add: word_le_nat_alt)
  then have "unat x div 128 < unat x" by simp
  then show "(drop_bit 7 x, x) \<in> measure unat"
    by (simp only: in_measure unat_drop_bit_7)
qed

declare PutUvarint.simps [simp del]

definition PutVarint :: "int64 \<Rightarrow> byte list" where
  "PutVarint x = PutUvarint (if x <s 0 then NOT (push_bit 1 x) else push_bit 1 x)"

definition varint_buf :: "byte list \<Rightarrow> byte list" where
  "varint_buf bs = bs @ replicate (10 - length bs) 0"

definition generateAD :: "string \<Rightarrow> uint64 \<Rightarrow> int64 \<Rightarrow> byte list" where
  "generateAD kid vid creation =
     varint_buf (PutUvarint vid) @ varint_buf (PutVarint creation) @ map of_char kid"

lemma length_PutUvarint_bound:
  "0 < k \<Longrightarrow> unat x < 2 ^ (7 * k) \<Longrightarrow> length (PutUvarint x) \<le> k"
proof (induction k arbitrary: x)
  case 0
  then show ?case by simp
next
  case (Suc k)
  show ?case
  proof (cases "0x80 \<le> x")
    case False
    then show ?thesis by (subst PutUvarint.simps) simp
  next
    case True
    then have ge: "128 \<le> unat x" by (simp add: word_le_nat_alt)
    have k: "0 < k"
    proof (rule ccontr)
      assume "\<not> 0 < k"
      with Suc.prems(2) ge show False by simp
    qed
    have "unat x < 2 ^ 7 * 2 ^ (7 * k)"
      using Suc.prems(2) by (simp add: power_add)
    then have "unat x div 2 ^ 7 < 2 ^ (7 * k)"
      by (simp add: less_mult_imp_div_less mult.commute)
    then have "unat (drop_bit 7 x) < 2 ^ (7 * k)"
      by (simp only: unat_drop_bit_7) simp
    with Suc.IH [OF k] have "length (PutUvarint (drop_bit 7 x)) \<le> k" by simp
    with True show ?thesis by (subst PutUvarint.simps) simp
  qed
qed

lemma length_PutUvarint: "length (PutUvarint x) \<le> 10"
proof -
  have "unat x < 2 ^ 64" using unsigned_less [of x, where 'a = nat] by simp
  also have "(2::nat) ^ 64 \<le> 2 ^ (7 * 10)" by simp
  finally show ?thesis by (intro length_PutUvarint_bound) simp_all
qed

text \<open>The metadata stored with each ciphertext: the scheme version byte, then the nonce.\<close>

definition buildMetadata :: "byte \<Rightarrow> byte list \<Rightarrow> byte list" where
  "buildMetadata version nonce = version # nonce"

text \<open>
  \<open>EncryptVersion\<close>: \<open>rnd\<close> is what \<open>rand.Read\<close> leaves in the nonce buffer of
  \<open>gcm.NonceSize()\<close> bytes, or \<open>None\<close> when it returns an error. \<open>cipher.NewGCM\<close> does not
  fail on an AES block cipher.
\<close>

definition EncryptVersion ::
  "AEAD \<Rightarrow> aesGCMCryptor \<Rightarrow> Key \<Rightarrow> KeyVersion \<Rightarrow> byte list option \<Rightarrow> EncKeyVersion result" where
  "EncryptVersion gcm c k v rnd =
     (case aes_NewCipher (c_keyData c) of
        Err e \<Rightarrow> Err e
      | Panic p \<Rightarrow> Panic p
      | Ok _ \<Rightarrow>
         (case rnd of
            None \<Rightarrow> Err ErrRandRead
          | Some nonce \<Rightarrow>
              Ok \<lparr>ekv_ID = kv_ID v,
                  ekv_EncData = aead_Seal gcm (c_keyData c) nonce (kv_Data v)
                                  (generateAD (key_ID k) (kv_ID v) (kv_CreationTime v)),
                  ekv_Status = kv_Status v,
                  ekv_CreationTime = kv_CreationTime v,
                  ekv_CryptoMetadata = buildMetadata (c_version c) nonce\<rparr>))"

text \<open>
  \<open>decryptVersion\<close>: \<open>md.Version()\<close> is \<open>md[0]\<close>, which panics on empty metadata, and
  \<open>md.Nonce()\<close> is \<open>md[1:]\<close>; \<open>gcm.Open\<close> panics on a nonce of the wrong length and returns
  an error when authentication fails.
\<close>

definition decryptVersion ::
  "AEAD \<Rightarrow> aesGCMCryptor \<Rightarrow> DBKey \<Rightarrow> EncKeyVersion \<Rightarrow> KeyVersion result" where
  "decryptVersion gcm c k v =
     (case ekv_CryptoMetadata v of
        [] \<Rightarrow> Panic IndexOutOfRange
      | version # nonce \<Rightarrow>
          if version \<noteq> c_version c then Err ErrCryptorVersion
          else (case aes_NewCipher (c_keyData c) of
                  Err e \<Rightarrow> Err e
                | Panic p \<Rightarrow> Panic p
                | Ok _ \<Rightarrow>
                    if length nonce \<noteq> aead_NonceSize gcm then Panic IncorrectNonceLength
                    else (case aead_Open gcm (c_keyData c) nonce (ekv_EncData v)
                                 (generateAD (dbk_ID k) (ekv_ID v) (ekv_CreationTime v)) of
                            None \<Rightarrow> Err ErrOpen
                          | Some plaintext \<Rightarrow>
                              Ok \<lparr>kv_ID = ekv_ID v, kv_Data = plaintext,
                                  kv_Status = ekv_Status v,
                                  kv_CreationTime = ekv_CreationTime v\<rparr>)))"

text \<open>
  \<open>Encrypt\<close> and \<open>Decrypt\<close> run over the version list in order and stop at the first
  failure. \<open>rnd i\<close> is the outcome of the \<open>rand.Read\<close> of the \<open>i\<close>-th \<open>EncryptVersion\<close>.
  The new \<open>DBKey\<close> leaves \<open>DBVersion\<close> at its zero value; the new \<open>Key\<close> leaves \<open>Path\<close>
  empty.
\<close>

fun Encrypt_loop ::
  "AEAD \<Rightarrow> aesGCMCryptor \<Rightarrow> Key \<Rightarrow> (nat \<Rightarrow> byte list option) \<Rightarrow> nat \<Rightarrow> KeyVersionList
    \<Rightarrow> EncKeyVersion list result" where
  "Encrypt_loop gcm c k rnd i [] = Ok []"
| "Encrypt_loop gcm c k rnd i (v # vs) =
     (case EncryptVersion gcm c k v (rnd i) of
        Err e \<Rightarrow> Err e
      | Panic p \<Rightarrow> Panic p
      | Ok dbv \<Rightarrow>
          (case Encrypt_loop gcm c k rnd (Suc i) vs of
             Err e \<Rightarrow> Err e
           | Panic p \<Rightarrow> Panic p
           | Ok dbVersions \<Rightarrow> Ok (dbv # dbVersions)))"

definition Encrypt :: "AEAD \<Rightarrow> aesGCMCryptor \<Rightarrow> (nat \<Rightarrow> byte list option) \<Rightarrow> Key \<Rightarrow> DBKey result" where
  "Encrypt gcm c rnd k =
     (case Encrypt_loop gcm c k rnd 0 (key_VersionList k) of
        Err e \<Rightarrow> Err e
      | Panic p \<Rightarrow> Panic p
      | Ok dbVersions \<Rightarrow>
          Ok \<lparr>dbk_ID = key_ID k, dbk_ACL = key_ACL k, dbk_VersionList = dbVersions,
              dbk_VersionHash = key_VersionHash k, dbk_DBVersion = 0\<rparr>)"

fun Decrypt_loop :: "AEAD \<Rightarrow> aesGCMCryptor \<Rightarrow> DBKey \<Rightarrow> EncKeyVersion list \<Rightarrow> KeyVersionList result" where
  "Decrypt_loop gcm c k [] = Ok []"
| "Decrypt_loop gcm c k (v # vs) =
     (case decryptVersion gcm c k v of
        Err e \<Rightarrow> Err e
      | Panic p \<Rightarrow> Panic p
      | Ok dbv \<Rightarrow>
          (case Decrypt_loop gcm c k vs of
             Err e \<Rightarrow> Err e
           | Panic p \<Rightarrow> Panic p
           | Ok versions \<Rightarrow> Ok (dbv # versions)))"

definition Decrypt :: "AEAD \<Rightarrow> aesGCMCryptor \<Rightarrow> DBKey \<Rightarrow> Key result" where
  "Decrypt gcm c k =
     (case Decrypt_loop gcm c k (dbk_VersionList k) of
        Err e \<Rightarrow> Err e
      | Panic p \<Rightarrow> Panic p
      | Ok versions \<Rightarrow>
          Ok \<lparr>key_ID = dbk_ID k, key_ACL = dbk_ACL k, key_VersionList = versions,
              key_VersionHash = dbk_VersionHash k, key_Path = []\<rparr>)"

text \<open>
  The cryptor is usable when its key has an AES length and the nonce reads succeed:
  \<open>nonces_ok gcm rnd n\<close> says so for the first \<open>n\<close> reads.
\<close>

definition nonces_ok :: "AEAD \<Rightarrow> (nat \<Rightarrow> byte list option) \<Rightarrow> nat \<Rightarrow> bool" where
  "nonces_ok gcm rnd n \<longleftrightarrow>
     (\<forall>i < n. case rnd i of None \<Rightarrow> False | Some nonce \<Rightarrow> length nonce = aead_NonceSize gcm)"

lemma aes_NewCipher_Ok:
  "aes_key_length (length key) \<Longrightarrow> aes_NewCipher key = Ok ()"
  by (simp add: aes_NewCipher_def)

lemma EncryptVersion_decryptVersion:
  assumes "AEAD_correct gcm" and "aes_key_length (length (c_keyData c))"
    and "length nonce = aead_NonceSize gcm" and "dbk_ID dbk = key_ID k"
  shows "\<exists>dbv. EncryptVersion gcm c k v (Some nonce) = Ok dbv \<and> decryptVersion gcm c dbk dbv = Ok v"
proof -
  let ?ad = "generateAD (key_ID k) (kv_ID v) (kv_CreationTime v)"
  let ?dbv = "\<lparr>ekv_ID = kv_ID v,
      ekv_EncData = aead_Seal gcm (c_keyData c) nonce (kv_Data v) ?ad,
      ekv_Status = kv_Status v, ekv_CreationTime = kv_CreationTime v,
      ekv_CryptoMetadata = buildMetadata (c_version c) nonce\<rparr>"
  have e: "EncryptVersion gcm c k v (Some nonce) = Ok ?dbv"
    using assms(2) by (simp add: EncryptVersion_def aes_NewCipher_Ok)
  have "aead_Open gcm (c_keyData c) nonce (aead_Seal gcm (c_keyData c) nonce (kv_Data v) ?ad) ?ad
      = Some (kv_Data v)"
    using assms(1,2,3) unfolding AEAD_correct_def by blast
  then have "decryptVersion gcm c dbk ?dbv = Ok v"
    using assms(2,3,4) by (simp add: decryptVersion_def buildMetadata_def aes_NewCipher_Ok)
  with e show ?thesis by blast
qed

lemma Encrypt_loop_Decrypt_loop:
  assumes "AEAD_correct gcm" and "aes_key_length (length (c_keyData c))" and "dbk_ID dbk = key_ID k"
  shows "(\<forall>j < length vs. case rnd (i + j) of None \<Rightarrow> False
                                       | Some nonce \<Rightarrow> length nonce = aead_NonceSize gcm) \<Longrightarrow>
     \<exists>dbvs. Encrypt_loop gcm c k rnd i vs = Ok dbvs \<and> Decrypt_loop gcm c dbk dbvs = Ok vs"
proof (induction vs arbitrary: i)
  case Nil
  then show ?case by simp
next
  case (Cons v vs)
  from Cons.prems [rule_format, of 0] obtain nonce where
    n: "rnd i = Some nonce" "length nonce = aead_NonceSize gcm"
    by (auto split: option.splits)
  from EncryptVersion_decryptVersion [OF assms(1,2) n(2) assms(3), of v] obtain dbv where
    v: "EncryptVersion gcm c k v (Some nonce) = Ok dbv" "decryptVersion gcm c dbk dbv = Ok v"
    by blast
  have "\<forall>j < length vs. case rnd (Suc i + j) of None \<Rightarrow> False
                                       | Some nonce \<Rightarrow> length nonce = aead_NonceSize gcm"
  proof (intro allI impI)
    fix j assume "j < length vs"
    then have "Suc j < length (v # vs)" by simp
    from Cons.prems [rule_format, OF this]
    show "case rnd (Suc i + j) of None \<Rightarrow> False | Some nonce \<Rightarrow> length nonce = aead_NonceSize gcm"
      by simp
  qed
  from Cons.IH [OF this] obtain dbvs where
    vs: "Encrypt_loop gcm c k rnd (Suc i) vs = Ok dbvs" "Decrypt_loop gcm c dbk dbvs = Ok vs"
    by blast
  from n v vs show ?case by simp
qed

text \<open>
  Encrypting and then decrypting under a usable cryptor gives back the id, the ACL, the
  version hash and the version list, version by version and in order; \<open>Path\<close> comes back
  empty.
\<close>

lemma Encrypt_Decrypt:
  assumes "AEAD_correct gcm" and "aes_key_length (length (c_keyData c))"
    and "nonces_ok gcm rnd (length (key_VersionList k))"
  shows "\<exists>dbk. Encrypt gcm c rnd k = Ok dbk \<and> Decrypt gcm c dbk = Ok (k\<lparr>key_Path := []\<rparr>)"
proof -
  let ?dbk = "\<lambda>dbvs. \<lparr>dbk_ID = key_ID k, dbk_ACL = key_ACL k, dbk_VersionList = dbvs,
              dbk_VersionHash = key_VersionHash k, dbk_DBVersion = 0\<rparr>"
  let ?d0 = "?dbk []"
  have id0: "dbk_ID ?d0 = key_ID k" by simp
  have "\<forall>j < length (key_VersionList k). case rnd (0 + j) of None \<Rightarrow> False
                                       | Some nonce \<Rightarrow> length nonce = aead_NonceSize gcm"
    using assms(3) by (simp add: nonces_ok_def)
  from Encrypt_loop_Decrypt_loop [OF assms(1,2) id0 this] obtain dbvs where
    e: "Encrypt_loop gcm c k rnd 0 (key_VersionList k) = Ok dbvs"
    by blast
  have id1: "dbk_ID (?dbk dbvs) = key_ID k" by simp
  have "\<forall>j < length (key_VersionList k). case rnd (0 + j) of None \<Rightarrow> False
                                       | Some nonce \<Rightarrow> length nonce = aead_NonceSize gcm"
    using assms(3) by (simp add: nonces_ok_def)
  from Encrypt_loop_Decrypt_loop [OF assms(1,2) id1 this] e
  have "Decrypt_loop gcm c (?dbk dbvs) dbvs = Ok (key_VersionList k)"
    by simp
  then have "Decrypt gcm c (?dbk dbvs) = Ok (k\<lparr>key_Path := []\<rparr>)"
    by (simp add: Decrypt_def)
  with e show ?thesis by (simp add: Encrypt_def)
qed

definition Encrypt_then_Decrypt ::
  "AEAD \<Rightarrow> aesGCMCryptor \<Rightarrow> (nat \<Rightarrow> byte list option) \<Rightarrow> Key \<Rightarrow> Key result" where
  "Encrypt_then_Decrypt gcm c rnd k =
     (case Encrypt gcm c rnd k of
        Err e \<Rightarrow> Err e
      | Panic p \<Rightarrow> Panic p
      | Ok dbk \<Rightarrow> Decrypt gcm c dbk)"

lemma Encrypt_then_Decrypt_eq:
  assumes "AEAD_correct gcm" and "aes_key_length (length (c_keyData c))"
    and "nonces_ok gcm rnd (length (key_VersionList k))"
  shows "Encrypt_then_Decrypt gcm c rnd k = Ok (k\<lparr>key_Path := []\<rparr>)"
  using Encrypt_Decrypt [OF assms] by (auto simp: Encrypt_then_Decrypt_def)

text \<open>
  An AEAD for the examples. It is not AES-GCM, only an AEAD with the law: a one-byte
  checksum over key, nonce, additional data and plaintext stands for the tag.
\<close>

definition example_tag :: "byte list \<Rightarrow> byte list \<Rightarrow> byte list \<Rightarrow> byte list \<Rightarrow> byte" where
  "example_tag key nonce pt ad = sum_list (key @ nonce @ ad @ pt)"

definition example_Seal :: "byte list \<Rightarrow> byte list \<Rightarrow> byte list \<Rightarrow> byte list \<Rightarrow> byte list" where
  "example_Seal key nonce pt ad = example_tag key nonce pt ad # map (\<lambda>b. b + 1) pt"

definition example_Open :: "byte list \<Rightarrow> byte list \<Rightarrow> byte list \<Rightarrow> byte list \<Rightarrow> byte list option" where
  "example_Open key nonce ct ad =
     (case ct of
        [] \<Rightarrow> None
      | t # body \<Rightarrow>
          if t = example_tag key nonce (map (\<lambda>b. b - 1) body) ad
          then Some (map (\<lambda>b. b - 1) body) else None)"

definition example_AEAD :: AEAD where
  "example_AEAD = \<lparr>aead_Seal = example_Seal, aead_Open = example_Open, aead_NonceSize = 12\<rparr>"

lemma example_AEAD_correct: "AEAD_correct example_AEAD"
  by (simp add: AEAD_correct_def example_AEAD_def example_Seal_def example_Open_def comp_def)

text \<open>The cryptor, the key and the version of the package's tests.\<close>

definition testCryptor :: aesGCMCryptor where
  "testCryptor = \<lparr>c_keyData = map of_char ''testtesttesttest'', c_version = 10\<rparr>"

definition makeTestVersion :: KeyVersion where
  "makeTestVersion = \<lparr>kv_ID = 12345, kv_Data = map of_char ''data'', kv_Status = Primary,
     kv_CreationTime = 1\<rparr>"

definition makeTestKey :: "string \<Rightarrow> Key" where
  "makeTestKey path = \<lparr>key_ID = ''testID'',
     key_ACL = [\<lparr>acc_Type = User, acc_ID = ''testUser'', acc_AccessType = Read\<rparr>],
     key_VersionList = [makeTestVersion], key_VersionHash = ''testHash'', key_Path = path\<rparr>"

definition zero_nonces :: "nat \<Rightarrow> byte list option" where
  "zero_nonces i = Some (replicate 12 0)"

lemma testCryptor_usable:
  "aes_key_length (length (c_keyData testCryptor))"
  "nonces_ok example_AEAD zero_nonces n"
  by (simp_all add: testCryptor_def aes_key_length_def nonces_ok_def zero_nonces_def example_AEAD_def)

text \<open>
  Claim C3. For every key, encrypting it and then decrypting it under the same cryptor
  (same scheme version byte, same symmetric key) returns a key with the original's id,
  ACL, version hash and version list: the versions in order, each with its id, data,
  status and creation time. The one other field of a \<open>Key\<close>, \<open>Path\<close>, belongs to the
  client, which fills it in when it reads a key from its cache file; the server never
  sets it, and the returned key has it empty. AES-GCM is Go's library: the cryptor
  stands on any AEAD that opens what it sealed, with a key of an AES length and the
  nonce reads succeeding.
\<close>

theorem aesGCMCryptor_Encrypt_Decrypt_roundtrip:
  assumes "AEAD_correct gcm" and "aes_key_length (length (c_keyData c))"
    and "nonces_ok gcm rnd (length (key_VersionList k))"
  shows "Encrypt_then_Decrypt gcm c rnd k = Ok (k\<lparr>key_Path := []\<rparr>)"
  using assms by (rule Encrypt_then_Decrypt_eq)

theorem aesGCMCryptor_Encrypt_Decrypt_roundtrip_witness:
  "Encrypt_then_Decrypt example_AEAD testCryptor zero_nonces (makeTestKey []) = Ok (makeTestKey [])"
  using aesGCMCryptor_Encrypt_Decrypt_roundtrip [OF example_AEAD_correct testCryptor_usable,
      of "makeTestKey []"]
  by (simp add: makeTestKey_def)

text \<open>
  The storage form \<open>DBKey\<close> does not carry a \<open>Path\<close> and \<open>Decrypt\<close> does not set one: a
  key that the client has read from its cache file, were it encrypted, would come back
  without its path.
\<close>

lemma Encrypt_then_Decrypt_Path_example:
  "Encrypt_then_Decrypt example_AEAD testCryptor zero_nonces (makeTestKey ''/var/lib/knox/v0/keys/testID'')
     = Ok (makeTestKey [])"
  using Encrypt_then_Decrypt_eq [OF example_AEAD_correct testCryptor_usable,
      of "makeTestKey ''/var/lib/knox/v0/keys/testID''"]
  by (simp add: makeTestKey_def)

section \<open>Validation\<close>

text \<open>
  \<open>ACL.Validate\<close>: for each entry in turn, \<open>ErrACLContainsNone\<close> if it grants \<open>None\<close>,
  then \<open>ErrACLDuplicateEntries\<close> if an entry at another index has its type and id.
  \<open>seen\<close> are the entries before the current one.
\<close>

fun ACL_Validate_loop :: "ACL \<Rightarrow> ACL \<Rightarrow> error option" where
  "ACL_Validate_loop seen [] = None"
| "ACL_Validate_loop seen (a # rest) =
     (if acc_AccessType a = None_AccessType then Some ErrACLContainsNone
      else if list_ex (\<lambda>b. acc_ID a = acc_ID b \<and> acc_Type a = acc_Type b) (seen @ rest)
        then Some ErrACLDuplicateEntries
      else ACL_Validate_loop (seen @ [a]) rest)"

definition ACL_Validate :: "ACL \<Rightarrow> error option" where
  "ACL_Validate acl = ACL_Validate_loop [] acl"

text \<open>
  \<open>KeyVersionList.Validate\<close>: one pass that counts the Primary versions and records
  each id in a map, returning \<open>ErrSameVersionID\<close> at the first id seen before; after
  the pass, \<open>ErrMulitplePrimary\<close> unless exactly one version is Primary.
\<close>

fun KeyVersionList_Validate_loop ::
  "KeyVersionList \<Rightarrow> nat \<Rightarrow> (uint64 \<rightharpoonup> byte list) \<Rightarrow> error option" where
  "KeyVersionList_Validate_loop [] primaryCount versionToData =
     (if primaryCount \<noteq> 1 then Some ErrMulitplePrimary else None)"
| "KeyVersionList_Validate_loop (kv # kvl) primaryCount versionToData =
     (if versionToData (kv_ID kv) \<noteq> None then Some ErrSameVersionID
      else KeyVersionList_Validate_loop kvl
             (if kv_Status kv = Primary then primaryCount + 1 else primaryCount)
             (versionToData(kv_ID kv \<mapsto> kv_Data kv)))"

definition KeyVersionList_Validate :: "KeyVersionList \<Rightarrow> error option" where
  "KeyVersionList_Validate kvl = KeyVersionList_Validate_loop kvl 0 Map.empty"

text \<open>The key id must match \<open>^[a-zA-Z0-9_:]+$\<close>.\<close>

definition valid_KeyID :: "string \<Rightarrow> bool" where
  "valid_KeyID s \<longleftrightarrow> s \<noteq> [] \<and>
     list_all (\<lambda>c. c \<in> set ''abcdefghijklmnopqrstuvwxyzABCDEFGHIJKLMNOPQRSTUVWXYZ0123456789_:'') s"

definition Key_Validate :: "Key \<Rightarrow> error option" where
  "Key_Validate k =
     (if \<not> valid_KeyID (key_ID k) then Some ErrInvalidKeyID
      else case ACL_Validate (key_ACL k) of
        Some aclErr \<Rightarrow> Some aclErr
      | None \<Rightarrow>
         (case KeyVersionList_Validate (key_VersionList k) of
            Some vlistErr \<Rightarrow> Some vlistErr
          | None \<Rightarrow>
              if key_VersionHash k \<noteq> KeyVersionList_Hash (key_VersionList k)
              then Some ErrInvalidVersionHash else None))"

section \<open>GetActive and GetPrimary\<close>

definition GetActive :: "KeyVersionList \<Rightarrow> KeyVersionList" where
  "GetActive kvl = filter (\<lambda>k. kv_Status k = Active \<or> kv_Status k = Primary) kvl"

text \<open>\<open>GetPrimary\<close> returns a pointer to the first Primary version, or \<open>nil\<close>.\<close>

fun GetPrimary :: "KeyVersionList \<Rightarrow> KeyVersion option" where
  "GetPrimary [] = None"
| "GetPrimary (k # kvl) = (if kv_Status k = Primary then Some k else GetPrimary kvl)"

lemma KeyVersionList_Validate_loop_count:
  "KeyVersionList_Validate_loop kvl primaryCount versionToData = None \<Longrightarrow>
   primaryCount + length (filter (\<lambda>v. kv_Status v = Primary) kvl) = 1"
proof (induction kvl arbitrary: primaryCount versionToData)
  case Nil
  then show ?case by (simp split: if_splits)
next
  case (Cons kv kvl)
  let ?pc = "if kv_Status kv = Primary then primaryCount + 1 else primaryCount"
  from Cons.prems have "KeyVersionList_Validate_loop kvl ?pc
      (versionToData(kv_ID kv \<mapsto> kv_Data kv)) = None"
    by (simp split: if_splits)
  from Cons.IH [OF this] show ?case by (simp split: if_splits)
qed

lemma KeyVersionList_Validate_one_Primary:
  "KeyVersionList_Validate kvl = None \<Longrightarrow> length (filter (\<lambda>v. kv_Status v = Primary) kvl) = 1"
  using KeyVersionList_Validate_loop_count [of kvl 0 Map.empty]
  by (simp add: KeyVersionList_Validate_def)

lemma GetPrimary_only:
  "length (filter (\<lambda>v. kv_Status v = Primary) kvl) = 1 \<Longrightarrow>
   \<exists>p. GetPrimary kvl = Some p \<and> filter (\<lambda>v. kv_Status v = Primary) kvl = [p]"
  by (induction kvl) (auto split: if_splits)

lemma GetPrimary_None:
  "GetPrimary kvl = None \<longleftrightarrow> (\<forall>v \<in> set kvl. kv_Status v \<noteq> Primary)"
  by (induction kvl) auto

lemma GetPrimary_first:
  "GetPrimary kvl = Some p \<longleftrightarrow>
     (\<exists>pre post. kvl = pre @ p # post \<and> kv_Status p = Primary
        \<and> (\<forall>v \<in> set pre. kv_Status v \<noteq> Primary))"
proof (induction kvl)
  case Nil
  then show ?case by simp
next
  case (Cons k kvl)
  show ?case
  proof (cases "kv_Status k = Primary")
    case True
    have "(\<exists>pre post. k # kvl = pre @ p # post \<and> kv_Status p = Primary
        \<and> (\<forall>v \<in> set pre. kv_Status v \<noteq> Primary)) \<longleftrightarrow> k = p"
    proof
      assume "\<exists>pre post. k # kvl = pre @ p # post \<and> kv_Status p = Primary
        \<and> (\<forall>v \<in> set pre. kv_Status v \<noteq> Primary)"
      then obtain pre post where s: "k # kvl = pre @ p # post"
        "\<forall>v \<in> set pre. kv_Status v \<noteq> Primary" by blast
      with True show "k = p" by (cases pre) auto
    next
      assume "k = p"
      with True have "k # kvl = [] @ p # kvl \<and> kv_Status p = Primary
        \<and> (\<forall>v \<in> set []. kv_Status v \<noteq> Primary)" by simp
      then show "\<exists>pre post. k # kvl = pre @ p # post \<and> kv_Status p = Primary
        \<and> (\<forall>v \<in> set pre. kv_Status v \<noteq> Primary)" by blast
    qed
    with True show ?thesis by simp
  next
    case False
    have "(\<exists>pre post. k # kvl = pre @ p # post \<and> kv_Status p = Primary
        \<and> (\<forall>v \<in> set pre. kv_Status v \<noteq> Primary))
      \<longleftrightarrow> (\<exists>pre post. kvl = pre @ p # post \<and> kv_Status p = Primary
        \<and> (\<forall>v \<in> set pre. kv_Status v \<noteq> Primary))"
    proof
      assume "\<exists>pre post. k # kvl = pre @ p # post \<and> kv_Status p = Primary
        \<and> (\<forall>v \<in> set pre. kv_Status v \<noteq> Primary)"
      then obtain pre post where s: "k # kvl = pre @ p # post" "kv_Status p = Primary"
        "\<forall>v \<in> set pre. kv_Status v \<noteq> Primary" by blast
      with False obtain pre' where "pre = k # pre'" by (cases pre) auto
      with s have "kvl = pre' @ p # post \<and> kv_Status p = Primary
        \<and> (\<forall>v \<in> set pre'. kv_Status v \<noteq> Primary)" by simp
      then show "\<exists>pre post. kvl = pre @ p # post \<and> kv_Status p = Primary
        \<and> (\<forall>v \<in> set pre. kv_Status v \<noteq> Primary)" by blast
    next
      assume "\<exists>pre post. kvl = pre @ p # post \<and> kv_Status p = Primary
        \<and> (\<forall>v \<in> set pre. kv_Status v \<noteq> Primary)"
      then obtain pre post where s: "kvl = pre @ p # post" "kv_Status p = Primary"
        "\<forall>v \<in> set pre. kv_Status v \<noteq> Primary" by blast
      with False have "k # kvl = (k # pre) @ p # post \<and> kv_Status p = Primary
        \<and> (\<forall>v \<in> set (k # pre). kv_Status v \<noteq> Primary)" by simp
      then show "\<exists>pre post. k # kvl = pre @ p # post \<and> kv_Status p = Primary
        \<and> (\<forall>v \<in> set pre. kv_Status v \<noteq> Primary)" by blast
    qed
    with False Cons.IH show ?thesis by simp
  qed
qed

section \<open>The key manager\<close>

text \<open>
  The interface \<open>keydb.Cryptor\<close>, and the AES-GCM cryptor as its implementation.
  \<open>rnd\<close> gives the outcomes of the \<open>rand.Read\<close> calls of one method call, in order.
\<close>

record Cryptor =
  cr_Decrypt :: "DBKey \<Rightarrow> Key result"
  cr_Encrypt :: "Key \<Rightarrow> DBKey result"
  cr_EncryptVersion :: "Key \<Rightarrow> KeyVersion \<Rightarrow> EncKeyVersion result"

definition NewAESGCMCryptor :: "AEAD \<Rightarrow> (nat \<Rightarrow> byte list option) \<Rightarrow> byte \<Rightarrow> byte list \<Rightarrow> Cryptor" where
  "NewAESGCMCryptor gcm rnd version keyData =
     \<lparr>cr_Decrypt = Decrypt gcm \<lparr>c_keyData = keyData, c_version = version\<rparr>,
      cr_Encrypt = Encrypt gcm \<lparr>c_keyData = keyData, c_version = version\<rparr> rnd,
      cr_EncryptVersion =
        (\<lambda>k v. EncryptVersion gcm \<lparr>c_keyData = keyData, c_version = version\<rparr> k v (rnd 0))\<rparr>"

text \<open>
  \<open>GetKey\<close>: load, decrypt, then select by \<open>status\<close>. In the \<open>Primary\<close> case the pointer
  that \<open>GetPrimary\<close> returns is dereferenced, which panics when it is \<open>nil\<close>.
\<close>

definition keyManager_GetKey :: "Cryptor \<Rightarrow> TempDB \<Rightarrow> string \<Rightarrow> VersionStatus \<Rightarrow> Key result" where
  "keyManager_GetKey cryptor db keyID status =
     (case TempDB_Get db keyID of
        Err e \<Rightarrow> Err e
      | Panic p \<Rightarrow> Panic p
      | Ok encK \<Rightarrow>
         (case cr_Decrypt cryptor encK of
            Err e \<Rightarrow> Err (ErrDecryptingKey e)
          | Panic p \<Rightarrow> Panic p
          | Ok k \<Rightarrow>
              if status = Inactive then Ok k
              else if status = Active then Ok (k\<lparr>key_VersionList := GetActive (key_VersionList k)\<rparr>)
              else if status = Primary then
                (case GetPrimary (key_VersionList k) of
                   None \<Rightarrow> Panic NilPointerDereference
                 | Some p \<Rightarrow> Ok (k\<lparr>key_VersionList := [p]\<rparr>))
              else Err ErrInvalidStatus))"

text \<open>
  \<open>AddVersion\<close>. The decrypted key gets the new version appended and its hash
  recomputed (\<open>Hash\<close> sorts the list it is called on in place), and is validated. Then
  \<open>encV, err := m.cryptor.EncryptVersion(k, v)\<close>: \<open>err\<close> is never read, and the next
  statement dereferences \<open>encV\<close>, which is \<open>nil\<close> when \<open>EncryptVersion\<close> returned an error.
  A call that returns gives the new database state (\<open>Ok\<close>) or the error (\<open>Err\<close>), in which
  case the state is unchanged.
\<close>

definition AddVersion_key :: "Key \<Rightarrow> KeyVersion \<Rightarrow> Key" where
  "AddVersion_key k v =
     k\<lparr>key_VersionList := Sort (key_VersionList k @ [v]),
       key_VersionHash := KeyVersionList_Hash (key_VersionList k @ [v])\<rparr>"

definition AddVersion_newEncK :: "DBKey \<Rightarrow> Key \<Rightarrow> EncKeyVersion \<Rightarrow> DBKey" where
  "AddVersion_newEncK encK k encV =
     (DBKey_Copy encK)\<lparr>dbk_VersionList := dbk_VersionList encK @ [encV],
       dbk_VersionHash := KeyVersionList_Hash (key_VersionList k)\<rparr>"

definition keyManager_AddVersion ::
  "Cryptor \<Rightarrow> TempDB \<Rightarrow> int64 \<Rightarrow> string \<Rightarrow> KeyVersion \<Rightarrow> TempDB result" where
  "keyManager_AddVersion cryptor db now keyID v =
     (case TempDB_Get db keyID of
        Err e \<Rightarrow> Err e
      | Panic p \<Rightarrow> Panic p
      | Ok encK \<Rightarrow>
         (case cr_Decrypt cryptor encK of
            Err e \<Rightarrow> Err (ErrDecryptingKey e)
          | Panic p \<Rightarrow> Panic p
          | Ok k \<Rightarrow>
             (case Key_Validate (AddVersion_key k v) of
                Some e \<Rightarrow> Err e
              | None \<Rightarrow>
                 (case cr_EncryptVersion cryptor (AddVersion_key k v) v of
                    Panic p \<Rightarrow> Panic p
                  | Err e \<Rightarrow> Panic NilPointerDereference
                  | Ok encV \<Rightarrow>
                     (case TempDB_Update db (AddVersion_newEncK encK (AddVersion_key k v) encV) now of
                        (None, db') \<Rightarrow> Ok db'
                      | (Some e, db') \<Rightarrow> Err e)))))"

text \<open>
  Claim C4. When the database returns the stored key for the id and the cryptor decrypts
  it to \<open>k\<close>, \<open>GetKey\<close> returns: \<open>k\<close> with its full version list for \<open>Inactive\<close>; \<open>k\<close> with
  the versions that are Primary or Active, in order, for \<open>Active\<close>; \<open>k\<close> with the list
  of just its Primary version for \<open>Primary\<close> (the first one, which on a version list that
  passes \<open>Validate\<close> is the only one); and for any other status value the error
  \<open>ErrInvalidStatus\<close> and no key.
\<close>

theorem keyManager_GetKey_filter:
  assumes "TempDB_Get db keyID = Ok encK" and "cr_Decrypt cryptor encK = Ok k"
  shows "keyManager_GetKey cryptor db keyID Inactive = Ok k
    \<and> keyManager_GetKey cryptor db keyID Active
        = Ok (k\<lparr>key_VersionList :=
                 filter (\<lambda>v. kv_Status v = Primary \<or> kv_Status v = Active) (key_VersionList k)\<rparr>)
    \<and> (\<forall>p. GetPrimary (key_VersionList k) = Some p \<longrightarrow>
          keyManager_GetKey cryptor db keyID Primary = Ok (k\<lparr>key_VersionList := [p]\<rparr>))
    \<and> (KeyVersionList_Validate (key_VersionList k) = None \<longrightarrow>
          keyManager_GetKey cryptor db keyID Primary
            = Ok (k\<lparr>key_VersionList := filter (\<lambda>v. kv_Status v = Primary) (key_VersionList k)\<rparr>)
          \<and> length (filter (\<lambda>v. kv_Status v = Primary) (key_VersionList k)) = 1)
    \<and> (status \<noteq> Inactive \<and> status \<noteq> Active \<and> status \<noteq> Primary \<longrightarrow>
          keyManager_GetKey cryptor db keyID status = Err ErrInvalidStatus)"
proof (intro conjI allI impI)
  show "keyManager_GetKey cryptor db keyID Inactive = Ok k"
    using assms by (simp add: keyManager_GetKey_def)
  have "GetActive (key_VersionList k)
      = filter (\<lambda>v. kv_Status v = Primary \<or> kv_Status v = Active) (key_VersionList k)"
    unfolding GetActive_def by (rule filter_cong) auto
  then show "keyManager_GetKey cryptor db keyID Active
        = Ok (k\<lparr>key_VersionList :=
                 filter (\<lambda>v. kv_Status v = Primary \<or> kv_Status v = Active) (key_VersionList k)\<rparr>)"
    using assms by (simp add: keyManager_GetKey_def enum_defs)
  show "keyManager_GetKey cryptor db keyID Primary = Ok (k\<lparr>key_VersionList := [p]\<rparr>)"
    if "GetPrimary (key_VersionList k) = Some p" for p
    using assms that by (simp add: keyManager_GetKey_def enum_defs)
  assume v: "KeyVersionList_Validate (key_VersionList k) = None"
  then show one: "length (filter (\<lambda>v. kv_Status v = Primary) (key_VersionList k)) = 1"
    by (rule KeyVersionList_Validate_one_Primary)
  from GetPrimary_only [OF one] obtain p where
    "GetPrimary (key_VersionList k) = Some p"
    "filter (\<lambda>v. kv_Status v = Primary) (key_VersionList k) = [p]" by blast
  then show "keyManager_GetKey cryptor db keyID Primary
            = Ok (k\<lparr>key_VersionList := filter (\<lambda>v. kv_Status v = Primary) (key_VersionList k)\<rparr>)"
    using assms by (simp add: keyManager_GetKey_def enum_defs)
next
  assume "status \<noteq> Inactive \<and> status \<noteq> Active \<and> status \<noteq> Primary"
  then show "keyManager_GetKey cryptor db keyID status = Err ErrInvalidStatus"
    using assms by (simp add: keyManager_GetKey_def)
qed

text \<open>
  Claim C10. When \<open>AddVersion\<close> has loaded, decrypted and validated the key and the
  cryptor's \<open>EncryptVersion\<close> returns an error \<open>e\<close>, the call does not return \<open>e\<close>, or
  anything: it panics on the \<open>nil\<close> pointer.
\<close>

theorem keyManager_AddVersion_drops_encrypt_error:
  assumes "TempDB_Get db keyID = Ok encK" and "cr_Decrypt cryptor encK = Ok k"
    and "Key_Validate (AddVersion_key k v) = None"
    and "cr_EncryptVersion cryptor (AddVersion_key k v) v = Err e"
  shows "keyManager_AddVersion cryptor db now keyID v = Panic NilPointerDereference
    \<and> keyManager_AddVersion cryptor db now keyID v \<noteq> Err e
    \<and> (\<forall>db'. keyManager_AddVersion cryptor db now keyID v \<noteq> Ok db')"
  using assms by (simp add: keyManager_AddVersion_def)

text \<open>
  A database for the examples: one stored key \<open>testID\<close> with a Primary, an Active and an
  Inactive version, encrypted under the test cryptor.
\<close>

definition testKey3 :: Key where
  "testKey3 = \<lparr>key_ID = ''testID'', key_ACL = [],
     key_VersionList = [mkVersion 1 Primary, mkVersion 2 Active, mkVersion 3 Inactive],
     key_VersionHash = ''testHash'', key_Path = []\<rparr>"

definition encryptTestVersion :: "KeyVersion \<Rightarrow> EncKeyVersion" where
  "encryptTestVersion v =
     \<lparr>ekv_ID = kv_ID v,
      ekv_EncData = example_Seal (c_keyData testCryptor) (replicate 12 0) (kv_Data v)
                      (generateAD ''testID'' (kv_ID v) (kv_CreationTime v)),
      ekv_Status = kv_Status v, ekv_CreationTime = kv_CreationTime v,
      ekv_CryptoMetadata = 10 # replicate 12 0\<rparr>"

definition storedTestKey :: DBKey where
  "storedTestKey = \<lparr>dbk_ID = ''testID'', dbk_ACL = [],
     dbk_VersionList = map encryptTestVersion (key_VersionList testKey3),
     dbk_VersionHash = ''testHash'', dbk_DBVersion = 7\<rparr>"

definition testDB :: TempDB where
  "testDB = \<lparr>db_keys = [storedTestKey], db_err = None\<rparr>"

definition failing_rand :: "nat \<Rightarrow> byte list option" where
  "failing_rand i = None"

lemma example_Open_Seal: "example_Open key nonce (example_Seal key nonce pt ad) ad = Some pt"
  by (simp add: example_Seal_def example_Open_def comp_def)

lemma decrypt_encryptTestVersion:
  "decryptVersion example_AEAD testCryptor storedTestKey (encryptTestVersion v) = Ok v"
  by (simp add: decryptVersion_def encryptTestVersion_def testCryptor_def aes_NewCipher_def
      aes_key_length_def example_AEAD_def example_Open_Seal storedTestKey_def)

lemma Decrypt_storedTestKey:
  "cr_Decrypt (NewAESGCMCryptor example_AEAD rnd 10 (map of_char ''testtesttesttest'')) storedTestKey
     = Ok testKey3"
proof -
  have "Decrypt_loop example_AEAD testCryptor storedTestKey (map encryptTestVersion vs) = Ok vs" for vs
    by (induction vs) (simp_all add: decrypt_encryptTestVersion)
  from this [of "key_VersionList testKey3"]
  have "Decrypt_loop example_AEAD testCryptor storedTestKey (dbk_VersionList storedTestKey)
      = Ok (key_VersionList testKey3)"
    by (simp add: storedTestKey_def)
  then have "Decrypt example_AEAD testCryptor storedTestKey = Ok testKey3"
    by (simp add: Decrypt_def) (simp add: storedTestKey_def testKey3_def)
  then show ?thesis
    by (simp add: NewAESGCMCryptor_def testCryptor_def)
qed

lemma Get_storedTestKey: "TempDB_Get testDB ''testID'' = Ok storedTestKey"
  by (simp add: TempDB_Get_def testDB_def storedTestKey_def)

theorem keyManager_GetKey_filter_witness:
  "keyManager_GetKey (NewAESGCMCryptor example_AEAD zero_nonces 10 (map of_char ''testtesttesttest''))
       testDB ''testID'' Inactive
     = Ok testKey3
   \<and> keyManager_GetKey (NewAESGCMCryptor example_AEAD zero_nonces 10 (map of_char ''testtesttesttest''))
       testDB ''testID'' Active
     = Ok (testKey3\<lparr>key_VersionList := [mkVersion 1 Primary, mkVersion 2 Active]\<rparr>)
   \<and> keyManager_GetKey (NewAESGCMCryptor example_AEAD zero_nonces 10 (map of_char ''testtesttesttest''))
       testDB ''testID'' Primary
     = Ok (testKey3\<lparr>key_VersionList := [mkVersion 1 Primary]\<rparr>)
   \<and> keyManager_GetKey (NewAESGCMCryptor example_AEAD zero_nonces 10 (map of_char ''testtesttesttest''))
       testDB ''testID'' 3
     = Err ErrInvalidStatus"
proof -
  let ?cr = "NewAESGCMCryptor example_AEAD zero_nonces 10 (map of_char ''testtesttesttest'')"
  have valid: "KeyVersionList_Validate (key_VersionList testKey3) = None"
    by (simp add: KeyVersionList_Validate_def testKey3_def mkVersion_def enum_defs)
  have other: "(3::int) \<noteq> Inactive \<and> 3 \<noteq> Active \<and> 3 \<noteq> Primary"
    by (simp add: enum_defs)
  note t = keyManager_GetKey_filter [OF Get_storedTestKey Decrypt_storedTestKey, of zero_nonces 3]
  from t have "keyManager_GetKey ?cr testDB ''testID'' Inactive = Ok testKey3"
    by blast
  moreover from t have "keyManager_GetKey ?cr testDB ''testID'' Active
      = Ok (testKey3\<lparr>key_VersionList := [mkVersion 1 Primary, mkVersion 2 Active]\<rparr>)"
    by (simp add: testKey3_def mkVersion_def enum_defs)
  moreover from t valid have "keyManager_GetKey ?cr testDB ''testID'' Primary
      = Ok (testKey3\<lparr>key_VersionList := [mkVersion 1 Primary]\<rparr>)"
    by (simp add: testKey3_def mkVersion_def enum_defs)
  moreover from t other have "keyManager_GetKey ?cr testDB ''testID'' 3 = Err ErrInvalidStatus"
    by blast
  ultimately show ?thesis by blast
qed

text \<open>Sorting does not change the hash, so the key that \<open>AddVersion\<close> builds carries the hash of its list.\<close>

lemma KeyVersionList_Hash_Sort: "KeyVersionList_Hash (Sort kvl) = KeyVersionList_Hash kvl"
proof (rule KeyVersionList_Hash_fingerprint)
  show "mset (map sort_key_of (filter in_use (Sort kvl))) = mset (map sort_key_of (filter in_use kvl))"
    by (simp add: mset_Sort)
  have "size (filter_mset (\<lambda>v. kv_Status v = Inactive) (mset (Sort kvl)))
      = size (filter_mset (\<lambda>v. kv_Status v = Inactive) (mset kvl))"
    by (simp add: mset_Sort)
  then show "length (filter (\<lambda>v. kv_Status v = Inactive) (Sort kvl))
      = length (filter (\<lambda>v. kv_Status v = Inactive) kvl)"
    by (simp only: mset_filter [symmetric] size_mset)
qed

lemma Key_Validate_AddVersion_key:
  "Key_Validate (AddVersion_key k v) =
     (if \<not> valid_KeyID (key_ID k) then Some ErrInvalidKeyID
      else case ACL_Validate (key_ACL k) of
        Some aclErr \<Rightarrow> Some aclErr
      | None \<Rightarrow> KeyVersionList_Validate (Sort (key_VersionList k @ [v])))"
  by (simp add: Key_Validate_def AddVersion_key_def KeyVersionList_Hash_Sort
      split: option.splits)

text \<open>
  The error branch is reachable: on the example database, with a cryptor whose
  \<open>rand.Read\<close> fails, \<open>AddVersion\<close> of a new Active version 4 gets as far as
  \<open>EncryptVersion\<close>, which returns \<open>ErrRandRead\<close>, and panics.
\<close>

theorem keyManager_AddVersion_drops_encrypt_error_witness:
  "cr_EncryptVersion (NewAESGCMCryptor example_AEAD failing_rand 10 (map of_char ''testtesttesttest''))
       (AddVersion_key testKey3 (mkVersion 4 Active)) (mkVersion 4 Active)
     = Err ErrRandRead
   \<and> keyManager_AddVersion (NewAESGCMCryptor example_AEAD failing_rand 10 (map of_char ''testtesttesttest''))
       testDB 9 ''testID'' (mkVersion 4 Active)
     = Panic NilPointerDereference"
proof -
  let ?cr = "NewAESGCMCryptor example_AEAD failing_rand 10 (map of_char ''testtesttesttest'')"
  let ?v = "mkVersion 4 Active"
  have enc: "cr_EncryptVersion ?cr (AddVersion_key testKey3 ?v) ?v = Err ErrRandRead"
    by (simp add: NewAESGCMCryptor_def EncryptVersion_def aes_NewCipher_def aes_key_length_def
        failing_rand_def)
  have valid: "Key_Validate (AddVersion_key testKey3 ?v) = None"
    by (simp add: Key_Validate_AddVersion_key testKey3_def valid_KeyID_def ACL_Validate_def
        KeyVersionList_Validate_def mkVersion_def Less_def enum_defs)
  from keyManager_AddVersion_drops_encrypt_error
    [OF Get_storedTestKey Decrypt_storedTestKey valid enc, of 9]
  have "keyManager_AddVersion ?cr testDB 9 ''testID'' ?v = Panic NilPointerDereference"
    by blast
  with enc show ?thesis by blast
qed

section \<open>The server's error responses\<close>

text \<open>The response subcodes of package knox, by their \<open>iota\<close> values.\<close>

definition OKCode :: int where "OKCode = 0"
definition InternalServerErrorCode :: int where "InternalServerErrorCode = 1"









text \<open>The response envelope. \<open>Data\<close> is an \<open>interface{}\<close>; an error response leaves it \<open>nil\<close>.\<close>

record Response =
  resp_Status :: string
  resp_Code :: int
  resp_Host :: string
  resp_Timestamp :: int64
  resp_Message :: string
  resp_Data :: "string option"








section \<open>float64 arithmetic\<close>

text \<open>
  Go's \<open>float64\<close> is the binary64 format of IEEE 754: a finite \<open>float64\<close> is kept as the
  real number it denotes, and every operation returns the exact result rounded to the
  nearest \<open>float64\<close>, a tie going to the one with an even significand. A \<open>float64\<close> has
  53 significant bits, so the numbers around \<open>x\<close> are the multiples of
  \<open>2 ^ (e - 52)\<close>, where \<open>e\<close> is the binary exponent of \<open>x\<close> and at least \<open>-1022\<close>
  (below that the subnormal numbers are evenly spaced). The exponent has no upper limit
  here: no operation of this development comes near the largest \<open>float64\<close>.
\<close>

definition pow2 :: "int \<Rightarrow> real" where
  "pow2 k = (if 0 \<le> k then 2 ^ nat k else 1 / 2 ^ nat (- k))"

definition float64_exponent :: "real \<Rightarrow> int" where
  "float64_exponent x =
     max (if 1 \<le> \<bar>x\<bar> then bitlen \<lfloor>\<bar>x\<bar>\<rfloor> - 1 else - bitlen (\<lceil>1 / \<bar>x\<bar>\<rceil> - 1)) (- 1022)"

definition round_half_even :: "real \<Rightarrow> int" where
  "round_half_even y =
     (if y - of_int \<lfloor>y\<rfloor> < 1 / 2 then \<lfloor>y\<rfloor>
      else if 1 / 2 < y - of_int \<lfloor>y\<rfloor> then \<lfloor>y\<rfloor> + 1
      else if even \<lfloor>y\<rfloor> then \<lfloor>y\<rfloor>
      else \<lfloor>y\<rfloor> + 1)"

definition float64_ulp :: "real \<Rightarrow> real" where
  "float64_ulp x = pow2 (float64_exponent x - 52)"

definition float64_round :: "real \<Rightarrow> real" where
  "float64_round x = float64_ulp x * of_int (round_half_even (x / float64_ulp x))"

lemmas float64_eval = float64_round_def float64_ulp_def float64_exponent_def compute_bitlen
  pow2_def round_half_even_def

text \<open>
  Three roundings: one tenth, which is not a \<open>float64\<close>; \<open>2 ^ 53 + 1\<close>, a tie that goes
  to the even neighbour; and the largest \<open>float64\<close> below one, which is kept.
\<close>

lemma float64_round_examples:
  "float64_round (1 / 10) = 3602879701896397 / 36028797018963968"
  "float64_round 9007199254740993 = 9007199254740992"
  "float64_round (1 - 1 / 2 ^ 53) = 1 - 1 / 2 ^ 53"
  "float64_round 0 = 0"
  by (simp_all add: float64_eval)

lemma pow2_pos: "0 < pow2 k"
  by (simp add: pow2_def)

lemma floor_le_round_half_even: "\<lfloor>y\<rfloor> \<le> round_half_even y"
  by (simp add: round_half_even_def)

lemma round_half_even_le_ceiling: "round_half_even y \<le> \<lceil>y\<rceil>"
proof (cases "y = of_int \<lfloor>y\<rfloor>")
  case True
  then have "round_half_even y = \<lfloor>y\<rfloor>" by (simp add: round_half_even_def)
  then show ?thesis by (simp add: floor_le_ceiling)
next
  case False
  then have "\<lceil>y\<rceil> = \<lfloor>y\<rfloor> + 1"
    by (metis ceiling_altdef)
  then show ?thesis by (simp add: round_half_even_def)
qed

lemma round_half_even_ge: "of_int m \<le> y \<Longrightarrow> m \<le> round_half_even y"
proof -
  assume "of_int m \<le> y"
  then have "m \<le> \<lfloor>y\<rfloor>" by (simp only: le_floor_iff)
  with floor_le_round_half_even [of y] show ?thesis by (rule order_trans [rotated])
qed

lemma round_half_even_le: "y \<le> of_int m \<Longrightarrow> round_half_even y \<le> m"
proof -
  assume "y \<le> of_int m"
  then have "\<lceil>y\<rceil> \<le> m" by (simp only: ceiling_le_iff)
  with round_half_even_le_ceiling [of y] show ?thesis by (rule order_trans)
qed

lemma float64_exponent_large:
  assumes "52 < float64_exponent x"
  shows "2 ^ 53 \<le> \<bar>x\<bar>" and "pow2 (float64_exponent x - 52) * 2 ^ 52 \<le> \<bar>x\<bar>"
proof -
  have one: "1 \<le> \<bar>x\<bar>"
  proof (rule ccontr)
    assume "\<not> 1 \<le> \<bar>x\<bar>"
    then have "float64_exponent x \<le> 0"
      using bitlen_nonneg [of "\<lceil>1 / \<bar>x\<bar>\<rceil> - 1"] by (simp add: float64_exponent_def)
    with assms show False by simp
  qed
  then have e: "float64_exponent x = bitlen \<lfloor>\<bar>x\<bar>\<rfloor> - 1"
    using assms by (simp add: float64_exponent_def max_def split: if_splits)
  from one have pos: "0 < \<lfloor>\<bar>x\<bar>\<rfloor>" by (simp add: less_floor_iff) 
  have "(2::int) ^ nat (bitlen \<lfloor>\<bar>x\<bar>\<rfloor> - 1) \<le> \<lfloor>\<bar>x\<bar>\<rfloor>"
    using bitlen_bounds [OF pos] by simp
  then have "real_of_int (2 ^ nat (float64_exponent x)) \<le> real_of_int \<lfloor>\<bar>x\<bar>\<rfloor>"
    unfolding e by (simp only: of_int_le_iff)
  then have le: "2 ^ nat (float64_exponent x) \<le> \<bar>x\<bar>"
    using of_int_floor_le [of "\<bar>x\<bar>"] by (simp only: of_int_power of_int_numeral)
  have n: "nat (float64_exponent x) = nat (float64_exponent x - 52) + 52"
    using assms by simp
  have "(2::real) ^ 53 \<le> 2 ^ nat (float64_exponent x)"
    using assms by (intro power_increasing) simp_all
  with le show "2 ^ 53 \<le> \<bar>x\<bar>" by simp
  have "pow2 (float64_exponent x - 52) * 2 ^ 52 = 2 ^ nat (float64_exponent x)"
    using assms by (subst n) (simp add: pow2_def power_add)
  with le show "pow2 (float64_exponent x - 52) * 2 ^ 52 \<le> \<bar>x\<bar>" by simp
qed

lemma int_multiple_of_ulp:
  assumes "float64_exponent x \<le> 52"
  shows "\<exists>m. real_of_int n = float64_ulp x * real_of_int m"
proof -
  have "real_of_int n = float64_ulp x * real_of_int (n * 2 ^ nat (52 - float64_exponent x))"
  proof (cases "float64_exponent x = 52")
    case True
    then show ?thesis by (simp add: float64_ulp_def pow2_def)
  next
    case False
    with assms have "float64_exponent x - 52 < 0" by simp
    then show ?thesis by (simp add: float64_ulp_def pow2_def)
  qed
  then show ?thesis ..
qed

lemma float64_ulp_pos: "0 < float64_ulp x"
  by (simp add: float64_ulp_def pow2_pos)

lemma float64_round_ge_int:
  assumes "real_of_int n \<le> x" and "\<bar>n\<bar> < 2 ^ 53"
  shows "real_of_int n \<le> float64_round x"
proof (cases "float64_exponent x \<le> 52")
  case True
  then obtain m where m: "real_of_int n = float64_ulp x * real_of_int m"
    using int_multiple_of_ulp by blast
  with assms(1) float64_ulp_pos [of x] have "real_of_int m \<le> x / float64_ulp x"
    by (simp add: pos_le_divide_eq mult.commute)
  then have "m \<le> round_half_even (x / float64_ulp x)"
    by (rule round_half_even_ge)
  then have "float64_ulp x * real_of_int m
      \<le> float64_ulp x * real_of_int (round_half_even (x / float64_ulp x))"
    using float64_ulp_pos [of x] by simp
  then show ?thesis by (simp add: m float64_round_def)
next
  case False
  then have big: "52 < float64_exponent x" by simp
  note l = float64_exponent_large [OF big]
  have "real_of_int \<bar>n\<bar> < 2 ^ 53"
    using assms(2) by (metis of_int_less_numeral_power_cancel_iff)
  then have nb: "- (2 ^ 53) < real_of_int n" by simp
  have xpos: "0 < x"
  proof (rule ccontr)
    assume "\<not> 0 < x"
    with l(1) have "x \<le> - (2 ^ 53)" by simp
    with assms(1) nb show False by simp
  qed
  then have "pow2 (float64_exponent x - 52) * 2 ^ 52 \<le> x"
    using l(2) by simp
  then have "real_of_int (2 ^ 52) \<le> x / float64_ulp x"
    using float64_ulp_pos [of x] by (simp add: float64_ulp_def pos_le_divide_eq mult.commute)
  then have "2 ^ 52 \<le> round_half_even (x / float64_ulp x)"
    by (rule round_half_even_ge)
  then have "real_of_int (2 ^ 52) \<le> real_of_int (round_half_even (x / float64_ulp x))"
    by (simp only: of_int_le_iff)
  then have "float64_ulp x * 2 ^ 52 \<le> float64_round x"
    using float64_ulp_pos [of x] by (simp add: float64_round_def)
  moreover have "2 ^ 53 \<le> float64_ulp x * 2 ^ 52"
  proof -
    have "1 \<le> nat (float64_exponent x - 52)" using big by simp
    then have "(2::real) ^ 1 \<le> 2 ^ nat (float64_exponent x - 52)"
      by (intro power_increasing) simp_all
    then show ?thesis using big by (simp add: float64_ulp_def pow2_def)
  qed
  ultimately show ?thesis using \<open>real_of_int \<bar>n\<bar> < 2 ^ 53\<close> by simp
qed


lemma float64_round_le_int:
  assumes "x \<le> real_of_int n" and "\<bar>n\<bar> < 2 ^ 53"
  shows "float64_round x \<le> real_of_int n"
proof (cases "float64_exponent x \<le> 52")
  case True
  then obtain m where m: "real_of_int n = float64_ulp x * real_of_int m"
    using int_multiple_of_ulp by blast
  with assms(1) float64_ulp_pos [of x] have "x / float64_ulp x \<le> real_of_int m"
    by (simp add: pos_divide_le_eq mult.commute)
  then have "round_half_even (x / float64_ulp x) \<le> m"
    by (rule round_half_even_le)
  then have "float64_ulp x * real_of_int (round_half_even (x / float64_ulp x))
      \<le> float64_ulp x * real_of_int m"
    using float64_ulp_pos [of x] by simp
  then show ?thesis by (simp add: m float64_round_def)
next
  case False
  then have big: "52 < float64_exponent x" by simp
  note l = float64_exponent_large [OF big]
  have "real_of_int \<bar>n\<bar> < 2 ^ 53"
    using assms(2) by (metis of_int_less_numeral_power_cancel_iff)
  then have nb: "real_of_int n < 2 ^ 53" "- (2 ^ 53) < real_of_int n" by simp_all
  have xneg: "x < 0"
  proof (rule ccontr)
    assume "\<not> x < 0"
    with l(1) have "2 ^ 53 \<le> x" by simp
    with assms(1) nb show False by simp
  qed
  then have "x \<le> - (pow2 (float64_exponent x - 52) * 2 ^ 52)"
    using l(2) by simp
  then have "x / float64_ulp x \<le> real_of_int (- (2 ^ 52))"
    using float64_ulp_pos [of x] by (simp add: float64_ulp_def pos_divide_le_eq mult.commute)
  then have "round_half_even (x / float64_ulp x) \<le> - (2 ^ 52)"
    by (rule round_half_even_le)
  then have "real_of_int (round_half_even (x / float64_ulp x)) \<le> real_of_int (- (2 ^ 52))"
    by (simp only: of_int_le_iff)
  then have "float64_ulp x * real_of_int (round_half_even (x / float64_ulp x))
      \<le> float64_ulp x * real_of_int (- (2 ^ 52))"
    using float64_ulp_pos [of x] by (intro mult_left_mono) simp_all
  then have "float64_round x \<le> - (float64_ulp x * 2 ^ 52)"
    by (simp add: float64_round_def)
  moreover have "2 ^ 53 \<le> float64_ulp x * 2 ^ 52"
  proof -
    have "1 \<le> nat (float64_exponent x - 52)" using big by simp
    then have "(2::real) ^ 1 \<le> 2 ^ nat (float64_exponent x - 52)"
      by (intro power_increasing) simp_all
    then show ?thesis using big by (simp add: float64_ulp_def pow2_def)
  qed
  ultimately show ?thesis using nb by simp
qed

lemma float64_round_int:
  "\<bar>n\<bar> < 2 ^ 53 \<Longrightarrow> float64_round (real_of_int n) = real_of_int n"
  using float64_round_le_int [of "real_of_int n" n] float64_round_ge_int [of n "real_of_int n"]
  by simp

text \<open>The exponent is the binary exponent of the number, down to the smallest normal one.\<close>

lemma float64_exponent_bounds:
  assumes "pow2 (- 1022) \<le> \<bar>x\<bar>"
  shows "pow2 (float64_exponent x) \<le> \<bar>x\<bar> \<and> \<bar>x\<bar> < pow2 (float64_exponent x + 1)"
proof (cases "1 \<le> \<bar>x\<bar>")
  case True
  then have pos: "0 < \<lfloor>\<bar>x\<bar>\<rfloor>" by (simp add: less_floor_iff)
  then have b1: "1 \<le> bitlen \<lfloor>\<bar>x\<bar>\<rfloor>"
    using bitlen_eq_zero_iff [of "\<lfloor>\<bar>x\<bar>\<rfloor>"] bitlen_nonneg [of "\<lfloor>\<bar>x\<bar>\<rfloor>"] by linarith
  with True have e: "float64_exponent x = bitlen \<lfloor>\<bar>x\<bar>\<rfloor> - 1"
    by (simp add: float64_exponent_def)
  from bitlen_bounds [OF pos]
  have lo: "(2::int) ^ nat (bitlen \<lfloor>\<bar>x\<bar>\<rfloor> - 1) \<le> \<lfloor>\<bar>x\<bar>\<rfloor>"
    and hi: "\<lfloor>\<bar>x\<bar>\<rfloor> + 1 \<le> 2 ^ nat (bitlen \<lfloor>\<bar>x\<bar>\<rfloor>)"
    by simp_all
  from lo have "real_of_int (2 ^ nat (bitlen \<lfloor>\<bar>x\<bar>\<rfloor> - 1)) \<le> real_of_int \<lfloor>\<bar>x\<bar>\<rfloor>"
    by (simp only: of_int_le_iff)
  then have l: "2 ^ nat (bitlen \<lfloor>\<bar>x\<bar>\<rfloor> - 1) \<le> \<bar>x\<bar>"
    using of_int_floor_le [of "\<bar>x\<bar>"] by (simp only: of_int_power of_int_numeral)
  from hi have "real_of_int (\<lfloor>\<bar>x\<bar>\<rfloor> + 1) \<le> real_of_int (2 ^ nat (bitlen \<lfloor>\<bar>x\<bar>\<rfloor>))"
    by (simp only: of_int_le_iff)
  then have h: "\<bar>x\<bar> < 2 ^ nat (bitlen \<lfloor>\<bar>x\<bar>\<rfloor>)"
    using floor_correct [of "\<bar>x\<bar>"] by (simp only: of_int_power of_int_numeral) linarith
  from l h b1 show ?thesis by (simp add: e pow2_def)
next
  case False
  from assms pow2_pos [of "- 1022"] have nz: "0 < \<bar>x\<bar>" by linarith
  define y where "y = 1 / \<bar>x\<bar>"
  define k where "k = bitlen (\<lceil>y\<rceil> - 1)"
  from False nz have y1: "1 < y" by (simp add: y_def)
  then have c: "0 < \<lceil>y\<rceil> - 1" by (simp add: less_ceiling_iff)
  then have k1: "1 \<le> k"
    using bitlen_eq_zero_iff [of "\<lceil>y\<rceil> - 1"] bitlen_nonneg [of "\<lceil>y\<rceil> - 1"]
    unfolding k_def by linarith
  from bitlen_bounds [OF c]
  have lo: "(2::int) ^ nat (k - 1) \<le> \<lceil>y\<rceil> - 1" and hi: "\<lceil>y\<rceil> \<le> 2 ^ nat k"
    by (simp_all add: k_def)
  from lo have "real_of_int (2 ^ nat (k - 1)) \<le> real_of_int (\<lceil>y\<rceil> - 1)"
    by (simp only: of_int_le_iff)
  then have l: "2 ^ nat (k - 1) < y"
    using ceiling_correct [of y] by (simp only: of_int_power of_int_numeral) linarith
  from hi have "real_of_int \<lceil>y\<rceil> \<le> real_of_int (2 ^ nat k)"
    by (simp only: of_int_le_iff)
  then have h: "y \<le> 2 ^ nat k"
    using ceiling_correct [of y] by (simp only: of_int_power of_int_numeral) linarith
  from l nz have up: "\<bar>x\<bar> < 1 / 2 ^ nat (k - 1)"
    by (simp add: y_def field_simps)
  from h nz have dn: "1 / 2 ^ nat k \<le> \<bar>x\<bar>"
    by (simp add: y_def field_simps)
  have kle: "k \<le> 1022"
  proof (rule ccontr)
    assume "\<not> k \<le> 1022"
    then have n: "1022 \<le> nat (k - 1)" by simp
    define P :: real where "P = 2 ^ 1022"
    have P: "0 < P" by (simp add: P_def)
    have "P \<le> 2 ^ nat (k - 1)"
      unfolding P_def using n by (intro power_increasing) simp_all
    with P have "1 / 2 ^ nat (k - 1) \<le> 1 / P"
      by (intro divide_left_mono) simp_all
    moreover have "1 / P \<le> \<bar>x\<bar>"
      using assms unfolding P_def pow2_def by simp
    ultimately show False using up by linarith
  qed
  from False kle have e: "float64_exponent x = - k"
    by (simp add: float64_exponent_def k_def y_def)
  have p1: "pow2 (- k) = 1 / 2 ^ nat k"
    using k1 by (simp add: pow2_def)
  have p2: "pow2 (1 - k) = 1 / 2 ^ nat (k - 1)"
  proof (cases "k = 1")
    case True
    then show ?thesis by (simp add: pow2_def)
  next
    case False
    with k1 have "\<not> 0 \<le> 1 - k" "nat (- (1 - k)) = nat (k - 1)" by simp_all
    then show ?thesis by (simp add: pow2_def)
  qed
  from up dn show ?thesis by (simp add: e p1 p2)
qed

section \<open>The client: retries and backoff\<close>

text \<open>Durations are \<open>time.Duration\<close>: nanoseconds.\<close>

definition baseBackoff :: int where "baseBackoff = 50 * 1000000"
definition maxBackoff :: int where "maxBackoff = 3 * 1000000000"
definition maxRetryAttempts :: int where "maxRetryAttempts = 3"

text \<open>
  \<open>GetBackoffDuration\<close> computes in \<open>float64\<close>: the conversions \<open>float64(attempt)\<close>,
  \<open>float64(baseBackoff)\<close> and \<open>float64(maxBackoff)\<close> round the integer, the product and
  the sum round their exact results. The language allows a compiler to fuse \<open>x*y + z\<close>
  into one operation that rounds once, and the compilers for some processors do: \<open>fused\<close>
  says which of the two the program at hand does. \<open>r\<close> is the value of \<open>rand.Float64()\<close>,
  a number in \<open>[0, 1)\<close>. The conversion \<open>time.Duration(duration)\<close> truncates towards
  zero.
\<close>

definition float64_of_int :: "int \<Rightarrow> real" where
  "float64_of_int n = float64_round (real_of_int n)"

definition Duration_of_float :: "real \<Rightarrow> int" where
  "Duration_of_float x = (if 0 \<le> x then \<lfloor>x\<rfloor> else \<lceil>x\<rceil>)"

definition backoff_float :: "bool \<Rightarrow> int \<Rightarrow> real \<Rightarrow> real" where
  "backoff_float fused attempt r =
     (if fused
      then float64_round (r * float64_of_int attempt + float64_of_int baseBackoff)
      else float64_round (float64_round (r * float64_of_int attempt) + float64_of_int baseBackoff))"

definition GetBackoffDuration :: "bool \<Rightarrow> int \<Rightarrow> real \<Rightarrow> int" where
  "GetBackoffDuration fused attempt r =
     (if backoff_float fused attempt r > float64_of_int maxBackoff then maxBackoff
      else Duration_of_float (backoff_float fused attempt r))"

text \<open>
  One call of \<open>getHTTPData\<close> in its environment: the result of \<open>http.NewRequest\<close>, the
  string the \<open>AuthHandler\<close> returns, what attempt \<open>i\<close> of the loop gets from \<open>cli.Do\<close>
  and from decoding the body, the random number drawn for the sleep after attempt \<open>i\<close>,
  and whether the multiplication and addition of the backoff are fused.
\<close>

datatype attempt = DoError error | DecodeError error | Decoded Response

record http_env =
  env_NewRequest :: "error option"
  env_auth :: string
  env_Do :: "int \<Rightarrow> attempt"
  env_rand :: "int \<Rightarrow> real"
  env_fused :: bool

text \<open>
  The error a call returns is either an error it was handed (\<open>return err\<close>) or the value
  of \<open>fmt.Errorf(format)\<close> for a format string and no operands. The latter is kept as
  the call it is: the text of that error is what package \<open>fmt\<close> makes of the format,
  which is the format itself only when it holds no \<open>%\<close> sign.
\<close>

datatype client_error = Returned error | fmt_Errorf string

text \<open>
  What the call did: the error it returned (\<open>None\<close> for \<open>nil\<close>), how many times it called
  \<open>cli.Do\<close>, and the durations it slept, in order.
\<close>

record http_run =
  run_err :: "client_error option"
  run_attempts :: int
  run_sleeps :: "int list"

function getHTTPData_loop :: "http_env \<Rightarrow> int \<Rightarrow> int list \<Rightarrow> http_run" where
  "getHTTPData_loop env i sleeps =
     (if \<not> i \<le> maxRetryAttempts
      then \<lparr>run_err = None, run_attempts = i - 1, run_sleeps = sleeps\<rparr>
      else case env_Do env i of
        DoError e \<Rightarrow> \<lparr>run_err = Some (Returned e), run_attempts = i, run_sleeps = sleeps\<rparr>
      | DecodeError e \<Rightarrow> \<lparr>run_err = Some (Returned e), run_attempts = i, run_sleeps = sleeps\<rparr>
      | Decoded resp \<Rightarrow>
          if resp_Status resp \<noteq> ''ok'' then
            (if resp_Code resp \<noteq> InternalServerErrorCode \<or> i = maxRetryAttempts
             then \<lparr>run_err = Some (fmt_Errorf (resp_Message resp)), run_attempts = i,
                    run_sleeps = sleeps\<rparr>
             else getHTTPData_loop env (i + 1)
                    (sleeps @ [GetBackoffDuration (env_fused env) i (env_rand env i)]))
          else \<lparr>run_err = None, run_attempts = i, run_sleeps = sleeps\<rparr>)"
  by pat_completeness auto
termination
  by (relation "measure (\<lambda>(env, i, sleeps). nat (maxRetryAttempts + 1 - i))") auto

declare getHTTPData_loop.simps [simp del]

definition getHTTPData :: "http_env \<Rightarrow> http_run" where
  "getHTTPData env =
     (case env_NewRequest env of
        Some e \<Rightarrow> \<lparr>run_err = Some (Returned e), run_attempts = 0, run_sleeps = []\<rparr>
      | None \<Rightarrow>
          if env_auth env = []
          then \<lparr>run_err = Some (fmt_Errorf ''No authentication data given. Use 'knox login' or set KNOX_USER_AUTH or KNOX_MACHINE_AUTH''),
                 run_attempts = 0, run_sleeps = []\<rparr>
          else getHTTPData_loop env 1 [])"

text \<open>
  The words of the claim: an attempt is retryable when its response decoded, is not
  \<open>ok\<close> and carries the code \<open>InternalServerError\<close>; \<open>attempt_error\<close> is the error that
  an attempt surfaces when the call ends with it.
\<close>

definition retryable :: "attempt \<Rightarrow> bool" where
  "retryable a =
     (case a of
        Decoded resp \<Rightarrow> resp_Status resp \<noteq> ''ok'' \<and> resp_Code resp = InternalServerErrorCode
      | _ \<Rightarrow> False)"

definition attempt_error :: "attempt \<Rightarrow> client_error option" where
  "attempt_error a =
     (case a of
        DoError e \<Rightarrow> Some (Returned e)
      | DecodeError e \<Rightarrow> Some (Returned e)
      | Decoded resp \<Rightarrow>
          if resp_Status resp \<noteq> ''ok'' then Some (fmt_Errorf (resp_Message resp)) else None)"

subsection \<open>The backoff duration\<close>

lemma float64_of_int_exact: "\<bar>n\<bar> < 2 ^ 53 \<Longrightarrow> float64_of_int n = real_of_int n"
  by (simp add: float64_of_int_def float64_round_int)

lemma float64_of_int_nonneg: "0 \<le> n \<Longrightarrow> 0 \<le> float64_of_int n"
  using float64_round_ge_int [of 0 "real_of_int n"] by (simp add: float64_of_int_def)

lemma float64_of_baseBackoff: "float64_of_int baseBackoff = 50000000"
  by (simp add: float64_of_int_exact baseBackoff_def)

lemma float64_of_maxBackoff: "float64_of_int maxBackoff = 3000000000"
  by (simp add: float64_of_int_exact maxBackoff_def)

lemma backoff_float_ge:
  assumes "real_of_int t \<le> r * float64_of_int attempt" and "\<bar>t\<bar> < 2 ^ 52"
  shows "real_of_int (t + baseBackoff) \<le> backoff_float fused attempt r"
proof -
  from assms(2) have b: "\<bar>t\<bar> < 2 ^ 53" "\<bar>t + baseBackoff\<bar> < 2 ^ 53"
    by (simp_all add: baseBackoff_def)
  show ?thesis
  proof (cases fused)
    case True
    have "real_of_int (t + baseBackoff) \<le> r * float64_of_int attempt + float64_of_int baseBackoff"
      using assms(1) by (simp only: float64_of_baseBackoff) (simp add: baseBackoff_def)
    from float64_round_ge_int [OF this b(2)] True show ?thesis
      by (simp add: backoff_float_def)
  next
    case False
    have "real_of_int t \<le> float64_round (r * float64_of_int attempt)"
      using assms(1) b(1) by (rule float64_round_ge_int)
    then have "real_of_int (t + baseBackoff)
        \<le> float64_round (r * float64_of_int attempt) + float64_of_int baseBackoff"
      by (simp only: float64_of_baseBackoff) (simp add: baseBackoff_def)
    from float64_round_ge_int [OF this b(2)] False show ?thesis
      by (simp add: backoff_float_def)
  qed
qed

lemma backoff_float_le:
  assumes "r * float64_of_int attempt \<le> real_of_int t" and "\<bar>t\<bar> < 2 ^ 52"
  shows "backoff_float fused attempt r \<le> real_of_int (t + baseBackoff)"
proof -
  from assms(2) have b: "\<bar>t\<bar> < 2 ^ 53" "\<bar>t + baseBackoff\<bar> < 2 ^ 53"
    by (simp_all add: baseBackoff_def)
  show ?thesis
  proof (cases fused)
    case True
    have "r * float64_of_int attempt + float64_of_int baseBackoff \<le> real_of_int (t + baseBackoff)"
      using assms(1) by (simp only: float64_of_baseBackoff) (simp add: baseBackoff_def)
    from float64_round_le_int [OF this b(2)] True show ?thesis
      by (simp add: backoff_float_def)
  next
    case False
    have "float64_round (r * float64_of_int attempt) \<le> real_of_int t"
      using assms(1) b(1) by (rule float64_round_le_int)
    then have "float64_round (r * float64_of_int attempt) + float64_of_int baseBackoff
        \<le> real_of_int (t + baseBackoff)"
      by (simp only: float64_of_baseBackoff) (simp add: baseBackoff_def)
    from float64_round_le_int [OF this b(2)] False show ?thesis
      by (simp add: backoff_float_def)
  qed
qed

lemma GetBackoffDuration_linear:
  assumes "0 \<le> attempt" and "0 \<le> r" and "r < 1"
  shows "min maxBackoff (baseBackoff + \<lfloor>r * float64_of_int attempt\<rfloor>)
           \<le> GetBackoffDuration fused attempt r"
    and "GetBackoffDuration fused attempt r
           \<le> min maxBackoff (baseBackoff + \<lceil>r * float64_of_int attempt\<rceil>)"
proof -
  define q where "q = r * float64_of_int attempt"
  define s where "s = backoff_float fused attempt r"
  have q0: "0 \<le> q"
    using assms(1,2) float64_of_int_nonneg [of attempt] by (simp add: q_def)
  then have n0: "0 \<le> \<lfloor>q\<rfloor>" and m0: "0 \<le> \<lceil>q\<rceil>"
    by (simp_all add: le_floor_iff le_ceiling_iff)
  have ge: "real_of_int (t + baseBackoff) \<le> s" if "real_of_int t \<le> q" "\<bar>t\<bar> < 2 ^ 52" for t
    using that unfolding q_def s_def by (rule backoff_float_ge)
  have le: "s \<le> real_of_int (t + baseBackoff)" if "q \<le> real_of_int t" "\<bar>t\<bar> < 2 ^ 52" for t
    using that unfolding q_def s_def by (rule backoff_float_le)
  have s0: "50000000 \<le> s"
    using ge [of 0] q0 by (simp add: baseBackoff_def)
  have g: "GetBackoffDuration fused attempt r = (if s > 3000000000 then maxBackoff else \<lfloor>s\<rfloor>)"
    using s0 by (simp add: GetBackoffDuration_def s_def [symmetric] float64_of_maxBackoff
        Duration_of_float_def)
  have lower: "min maxBackoff (baseBackoff + \<lfloor>q\<rfloor>) \<le> GetBackoffDuration fused attempt r"
  proof (cases "s > 3000000000")
    case True
    then show ?thesis by (simp add: g)
  next
    case False
    show ?thesis
    proof (cases "baseBackoff + \<lfloor>q\<rfloor> \<le> maxBackoff")
      case True
      then have "\<bar>\<lfloor>q\<rfloor>\<bar> < 2 ^ 52"
        using n0 by (simp add: baseBackoff_def maxBackoff_def)
      from ge [OF of_int_floor_le this] have "\<lfloor>q\<rfloor> + baseBackoff \<le> \<lfloor>s\<rfloor>"
        by (simp only: le_floor_iff)
      with False show ?thesis by (simp add: g)
    next
      case big: False
      define t where "t = maxBackoff - baseBackoff + 1"
      from big have "t \<le> \<lfloor>q\<rfloor>" by (simp add: t_def)
      then have "real_of_int t \<le> q" by (simp only: le_floor_iff)
      moreover have "\<bar>t\<bar> < 2 ^ 52" by (simp add: t_def baseBackoff_def maxBackoff_def)
      ultimately have "real_of_int (t + baseBackoff) \<le> s" by (rule ge)
      with False show ?thesis by (simp add: t_def maxBackoff_def)
    qed
  qed
  have upper: "GetBackoffDuration fused attempt r \<le> min maxBackoff (baseBackoff + \<lceil>q\<rceil>)"
  proof (cases "\<bar>\<lceil>q\<rceil>\<bar> < 2 ^ 52")
    case True
    from le [OF le_of_int_ceiling this] have sm: "s \<le> real_of_int (\<lceil>q\<rceil> + baseBackoff)" .
    show ?thesis
    proof (cases "s > 3000000000")
      case True
      with sm have "real_of_int maxBackoff < real_of_int (\<lceil>q\<rceil> + baseBackoff)"
        by (simp add: maxBackoff_def)
      then have "maxBackoff < \<lceil>q\<rceil> + baseBackoff" by (simp only: of_int_less_iff)
      with True show ?thesis by (simp add: g)
    next
      case False
      then have "\<lfloor>s\<rfloor> \<le> maxBackoff" by (simp add: floor_le_iff maxBackoff_def)
      moreover from sm have "\<lfloor>s\<rfloor> \<le> \<lceil>q\<rceil> + baseBackoff"
        using floor_mono [OF sm] by simp
      ultimately show ?thesis using False by (simp add: g)
    qed
  next
    case False
    with m0 have "maxBackoff \<le> baseBackoff + \<lceil>q\<rceil>"
      by (simp add: baseBackoff_def maxBackoff_def)
    moreover have "GetBackoffDuration fused attempt r \<le> maxBackoff"
      by (simp add: g floor_le_iff maxBackoff_def)
    ultimately show ?thesis by simp
  qed
  from lower show "min maxBackoff (baseBackoff + \<lfloor>r * float64_of_int attempt\<rfloor>)
      \<le> GetBackoffDuration fused attempt r"
    by (simp only: q_def)
  from upper show "GetBackoffDuration fused attempt r
      \<le> min maxBackoff (baseBackoff + \<lceil>r * float64_of_int attempt\<rceil>)"
    by (simp only: q_def)
qed

lemma GetBackoffDuration_bounds:
  assumes "0 \<le> attempt" and "0 \<le> r" and "r < 1"
  shows "baseBackoff \<le> GetBackoffDuration fused attempt r
    \<and> GetBackoffDuration fused attempt r \<le> maxBackoff"
proof -
  have "0 \<le> r * float64_of_int attempt"
    using assms(1,2) float64_of_int_nonneg [of attempt] by simp
  then have "0 \<le> \<lfloor>r * float64_of_int attempt\<rfloor>" by (simp add: le_floor_iff)
  then have "baseBackoff \<le> min maxBackoff (baseBackoff + \<lfloor>r * float64_of_int attempt\<rfloor>)"
    by (simp add: baseBackoff_def maxBackoff_def)
  moreover note GetBackoffDuration_linear [OF assms, of fused]
  ultimately show ?thesis by linarith
qed

subsection \<open>The loop\<close>

lemma getHTTPData_loop_unrolled:
  "getHTTPData_loop env 1 [] =
     (if \<not> retryable (env_Do env 1)
      then \<lparr>run_err = attempt_error (env_Do env 1), run_attempts = 1, run_sleeps = []\<rparr>
      else if \<not> retryable (env_Do env 2)
      then \<lparr>run_err = attempt_error (env_Do env 2), run_attempts = 2,
             run_sleeps = [GetBackoffDuration (env_fused env) 1 (env_rand env 1)]\<rparr>
      else \<lparr>run_err = attempt_error (env_Do env 3), run_attempts = 3,
             run_sleeps = [GetBackoffDuration (env_fused env) 1 (env_rand env 1),
                           GetBackoffDuration (env_fused env) 2 (env_rand env 2)]\<rparr>)"
proof -
  have l3: "getHTTPData_loop env 3 s =
      \<lparr>run_err = attempt_error (env_Do env 3), run_attempts = 3, run_sleeps = s\<rparr>" for s
    by (subst getHTTPData_loop.simps)
      (simp add: maxRetryAttempts_def attempt_error_def split: attempt.splits)
  have l2: "getHTTPData_loop env 2 s =
      (if \<not> retryable (env_Do env 2)
       then \<lparr>run_err = attempt_error (env_Do env 2), run_attempts = 2, run_sleeps = s\<rparr>
       else getHTTPData_loop env 3 (s @ [GetBackoffDuration (env_fused env) 2 (env_rand env 2)]))"
    for s
    by (subst getHTTPData_loop.simps)
      (simp add: maxRetryAttempts_def attempt_error_def retryable_def split: attempt.splits)
  have l1: "getHTTPData_loop env 1 s =
      (if \<not> retryable (env_Do env 1)
       then \<lparr>run_err = attempt_error (env_Do env 1), run_attempts = 1, run_sleeps = s\<rparr>
       else getHTTPData_loop env 2 (s @ [GetBackoffDuration (env_fused env) 1 (env_rand env 1)]))"
    for s
    by (subst getHTTPData_loop.simps)
      (simp add: maxRetryAttempts_def attempt_error_def retryable_def split: attempt.splits)
  show ?thesis by (simp add: l1 l2 l3)
qed

lemma getHTTPData_cases:
  assumes "env_NewRequest env = None" and "env_auth env \<noteq> []"
  shows "getHTTPData env =
     (if \<not> retryable (env_Do env 1)
      then \<lparr>run_err = attempt_error (env_Do env 1), run_attempts = 1, run_sleeps = []\<rparr>
      else if \<not> retryable (env_Do env 2)
      then \<lparr>run_err = attempt_error (env_Do env 2), run_attempts = 2,
             run_sleeps = [GetBackoffDuration (env_fused env) 1 (env_rand env 1)]\<rparr>
      else \<lparr>run_err = attempt_error (env_Do env 3), run_attempts = 3,
             run_sleeps = [GetBackoffDuration (env_fused env) 1 (env_rand env 1),
                           GetBackoffDuration (env_fused env) 2 (env_rand env 2)]\<rparr>)"
  using assms by (simp add: getHTTPData_def getHTTPData_loop_unrolled)

text \<open>
  Claim C8, as amended. A call that gets as far as the loop makes between one and three attempts; an
  attempt is followed by another one only when its response decoded, was not \<open>ok\<close> and
  carried the code \<open>InternalServerError\<close>, and a third such response ends the call; the
  call returns what its last attempt surfaces (the transport or decoding error, the
  error made of the message of a response that is not \<open>ok\<close>, or \<open>nil\<close>). Between attempt
  \<open>j\<close> and the next it sleeps \<open>GetBackoffDuration(j)\<close>, a duration between 50 ms and 3 s.
  For every attempt number that is not negative and every random number in \<open>[0, 1)\<close>,
  fused or not, \<open>GetBackoffDuration\<close> lies between 50 ms and 3 s, and it is linear in
  the attempt number with jitter, and capped: 50 ms plus the random number times the
  attempt number (as a \<open>float64\<close>, which is the attempt number itself below \<open>2 ^ 53\<close>),
  rounded to a whole nanosecond down or up, and 3 s when that exceeds 3 s.
\<close>

theorem getHTTPData_retry_policy:
  assumes "env_NewRequest env = None" and "env_auth env \<noteq> []"
    and "\<forall>i. 0 \<le> env_rand env i \<and> env_rand env i < 1"
  shows "1 \<le> run_attempts (getHTTPData env) \<and> run_attempts (getHTTPData env) \<le> maxRetryAttempts
    \<and> maxRetryAttempts = 3
    \<and> (\<forall>j. 1 \<le> j \<and> j < run_attempts (getHTTPData env) \<longrightarrow> retryable (env_Do env j))
    \<and> (retryable (env_Do env (run_attempts (getHTTPData env)))
          \<longrightarrow> run_attempts (getHTTPData env) = maxRetryAttempts)
    \<and> run_err (getHTTPData env) = attempt_error (env_Do env (run_attempts (getHTTPData env)))
    \<and> run_sleeps (getHTTPData env)
        = map (\<lambda>j. GetBackoffDuration (env_fused env) j (env_rand env j))
            [1..run_attempts (getHTTPData env) - 1]
    \<and> (\<forall>d \<in> set (run_sleeps (getHTTPData env)). 50 * 1000000 \<le> d \<and> d \<le> 3 * 1000000000)
    \<and> (\<forall>fused attempt r. 0 \<le> attempt \<and> 0 \<le> r \<and> r < 1 \<longrightarrow>
          50 * 1000000 \<le> GetBackoffDuration fused attempt r
          \<and> GetBackoffDuration fused attempt r \<le> 3 * 1000000000
          \<and> min (3 * 1000000000) (50 * 1000000 + \<lfloor>r * float64_of_int attempt\<rfloor>)
               \<le> GetBackoffDuration fused attempt r
          \<and> GetBackoffDuration fused attempt r
               \<le> min (3 * 1000000000) (50 * 1000000 + \<lceil>r * float64_of_int attempt\<rceil>)
          \<and> (attempt < 2 ^ 53 \<longrightarrow> float64_of_int attempt = real_of_int attempt))"
proof -
  have b: "50 * 1000000 \<le> GetBackoffDuration fused attempt r
      \<and> GetBackoffDuration fused attempt r \<le> 3 * 1000000000
      \<and> min (3 * 1000000000) (50 * 1000000 + \<lfloor>r * float64_of_int attempt\<rfloor>)
           \<le> GetBackoffDuration fused attempt r
      \<and> GetBackoffDuration fused attempt r
           \<le> min (3 * 1000000000) (50 * 1000000 + \<lceil>r * float64_of_int attempt\<rceil>)
      \<and> (attempt < 2 ^ 53 \<longrightarrow> float64_of_int attempt = real_of_int attempt)"
    if "0 \<le> attempt" "0 \<le> r" "r < 1" for fused attempt r
  proof -
    have "attempt < 2 ^ 53 \<longrightarrow> float64_of_int attempt = real_of_int attempt"
      using that(1) by (simp add: float64_of_int_exact)
    with GetBackoffDuration_bounds [OF that, of fused] GetBackoffDuration_linear [OF that, of fused]
    show ?thesis by (simp add: baseBackoff_def maxBackoff_def)
  qed
  have b1: "50 * 1000000 \<le> GetBackoffDuration (env_fused env) 1 (env_rand env 1)
      \<and> GetBackoffDuration (env_fused env) 1 (env_rand env 1) \<le> 3 * 1000000000"
    and b2: "50 * 1000000 \<le> GetBackoffDuration (env_fused env) 2 (env_rand env 2)
      \<and> GetBackoffDuration (env_fused env) 2 (env_rand env 2) \<le> 3 * 1000000000"
    using assms(3) b [of 1 "env_rand env 1" "env_fused env"] b [of 2 "env_rand env 2" "env_fused env"]
    by simp_all
  note c = getHTTPData_cases [OF assms(1,2)]
  consider (one) "\<not> retryable (env_Do env 1)"
    | (two) "retryable (env_Do env 1)" "\<not> retryable (env_Do env 2)"
    | (three) "retryable (env_Do env 1)" "retryable (env_Do env 2)"
    by blast
  then have "1 \<le> run_attempts (getHTTPData env) \<and> run_attempts (getHTTPData env) \<le> maxRetryAttempts
    \<and> maxRetryAttempts = 3
    \<and> (\<forall>j. 1 \<le> j \<and> j < run_attempts (getHTTPData env) \<longrightarrow> retryable (env_Do env j))
    \<and> (retryable (env_Do env (run_attempts (getHTTPData env)))
          \<longrightarrow> run_attempts (getHTTPData env) = maxRetryAttempts)
    \<and> run_err (getHTTPData env) = attempt_error (env_Do env (run_attempts (getHTTPData env)))
    \<and> run_sleeps (getHTTPData env)
        = map (\<lambda>j. GetBackoffDuration (env_fused env) j (env_rand env j))
            [1..run_attempts (getHTTPData env) - 1]
    \<and> (\<forall>d \<in> set (run_sleeps (getHTTPData env)). 50 * 1000000 \<le> d \<and> d \<le> 3 * 1000000000)"
  proof cases
    case one
    then show ?thesis by (auto simp: c maxRetryAttempts_def)
  next
    case two
    have q: "\<forall>j. 1 \<le> j \<and> j < 2 \<longrightarrow> retryable (env_Do env j)"
    proof (intro allI impI)
      fix j :: int assume "1 \<le> j \<and> j < 2"
      then have "j = 1" by arith
      with two show "retryable (env_Do env j)" by simp
    qed
    from two b1 q show ?thesis by (simp add: c maxRetryAttempts_def)
  next
    case three
    have q: "\<forall>j. 1 \<le> j \<and> j < 3 \<longrightarrow> retryable (env_Do env j)"
    proof (intro allI impI)
      fix j :: int assume "1 \<le> j \<and> j < 3"
      then have "j = 1 \<or> j = 2" by arith
      with three show "retryable (env_Do env j)" by auto
    qed
    have u: "[1..2] = [1, 2::int]" by (simp add: upto.simps)
    from three b1 b2 q show ?thesis by (simp add: c maxRetryAttempts_def u)
  qed
  with b show ?thesis by blast
qed

text \<open>
  A run of the theorem: the first response is an \<open>InternalServerError\<close>, the second is
  \<open>ok\<close>; the random number is the largest \<open>float64\<close> below one, and the sum with the
  base rounds up to a whole nanosecond more than the base. Three more values of
  \<open>GetBackoffDuration\<close>: a jitter of 500 ns, the cap, and the fused sum.
\<close>

definition serverErrorResponse :: Response where
  "serverErrorResponse = \<lparr>resp_Status = ''error'', resp_Code = InternalServerErrorCode,
     resp_Host = ''test'', resp_Timestamp = 1234567890,
     resp_Message = ''Internal Server Error'', resp_Data = None\<rparr>"

definition goodResponse :: Response where
  "goodResponse = \<lparr>resp_Status = ''ok'', resp_Code = OKCode, resp_Host = ''test'',
     resp_Timestamp = 1234567890, resp_Message = [], resp_Data = None\<rparr>"

definition example_env :: http_env where
  "example_env = \<lparr>env_NewRequest = None, env_auth = ''TESTAUTH'',
     env_Do = (\<lambda>i. if i = 1 then Decoded serverErrorResponse else Decoded goodResponse),
     env_rand = (\<lambda>i. 1 - 1 / 2 ^ 53), env_fused = False\<rparr>"

lemmas backoff_eval =
  GetBackoffDuration_def backoff_float_def float64_of_int_def baseBackoff_def maxBackoff_def
  Duration_of_float_def float64_eval

theorem getHTTPData_retry_policy_witness:
  "getHTTPData example_env = \<lparr>run_err = None, run_attempts = 2, run_sleeps = [50000001]\<rparr>
   \<and> retryable (env_Do example_env 1) \<and> \<not> retryable (env_Do example_env 2)
   \<and> GetBackoffDuration False 1000 (1 / 2) = 50000500
   \<and> GetBackoffDuration False 4000000000 (3 / 4) = 3000000000
   \<and> GetBackoffDuration True 1 (1 - 1 / 2 ^ 53) = 50000001"
proof -
  have h: "env_NewRequest example_env = None" "env_auth example_env \<noteq> []"
    "\<forall>i. 0 \<le> env_rand example_env i \<and> env_rand example_env i < 1"
    by (simp_all add: example_env_def)
  have r: "retryable (env_Do example_env 1)" "\<not> retryable (env_Do example_env 2)"
    by (simp_all add: example_env_def retryable_def serverErrorResponse_def goodResponse_def)
  have e: "attempt_error (env_Do example_env 2) = None"
    by (simp add: example_env_def attempt_error_def goodResponse_def)
  have d: "GetBackoffDuration (env_fused example_env) 1 (env_rand example_env 1) = 50000001"
    by (simp add: example_env_def backoff_eval)
  have v: "GetBackoffDuration False 1000 (1 / 2) = 50000500"
    "GetBackoffDuration False 4000000000 (3 / 4) = 3000000000"
    "GetBackoffDuration True 1 (1 - 1 / 2 ^ 53) = 50000001"
    by (simp_all add: backoff_eval)
  note t = getHTTPData_retry_policy [OF h]
  from t r have n: "run_attempts (getHTTPData example_env) = 2"
  proof -
    from t have le: "1 \<le> run_attempts (getHTTPData example_env)"
      "run_attempts (getHTTPData example_env) \<le> 3"
      and before: "\<forall>j. 1 \<le> j \<and> j < run_attempts (getHTTPData example_env)
          \<longrightarrow> retryable (env_Do example_env j)"
      and last: "retryable (env_Do example_env (run_attempts (getHTTPData example_env)))
          \<longrightarrow> run_attempts (getHTTPData example_env) = 3"
      by simp_all
    from before r(2) have "\<not> 2 < run_attempts (getHTTPData example_env)" by auto
    moreover from last r(1) have "run_attempts (getHTTPData example_env) \<noteq> 1" by auto
    ultimately show ?thesis using le by arith
  qed
  from t n e d have "run_err (getHTTPData example_env) = None"
    "run_sleeps (getHTTPData example_env) = [50000001]"
    by simp_all
  with n r v show ?thesis by (cases "getHTTPData example_env") simp
qed

text \<open>
  Claim C8 as stated bounds every value of \<open>GetBackoffDuration\<close> from below by 50 ms.
  The function takes any \<open>int\<close>: for a negative attempt number the jitter is subtracted
  from the base. The loop of \<open>getHTTPData\<close> never passes one.
\<close>

theorem GetBackoffDuration_negative_attempt_counterexample:
  "GetBackoffDuration False (- 1) (1 / 2) = 49999999
   \<and> GetBackoffDuration True (- 1) (1 / 2) = 49999999
   \<and> GetBackoffDuration False (- 1) (1 / 2) < 50 * 1000000"
  by (simp add: backoff_eval)

section \<open>The refresh daemon: one update cycle\<close>

text \<open>
  \<^verbatim>\<open>daemon.update\<close> and \<^verbatim>\<open>daemon.processKey\<close> of \<^verbatim>\<open>client/daemon.go\<close>. The calls the
  cycle makes on the registration file, the key directory and the server are recorded, in
  order, as a list of events; what each call answers is a parameter of the model. An
  answer depends on the key id only, so that the same call on the same id is answered the
  same way throughout one cycle.
\<close>

datatype event =
    Lock_acquired
  | Lock_failed error
  | Unlock_call
  | Register_Get
  | Register_Remove string
  | ReadDir
  | Cache_GetKey string
  | Delete_Key string
  | Net_GetKeys "(string \<times> string) list"
  | Net_GetKey string
  | Tmp_Create string
  | Tmp_Write string
  | Tmp_Close string
  | Tmp_Remove string
  | Tmp_Rename string
  | Key_Chmod string

text \<open>
  The Go map from key id to version hash, as an association list with distinct keys;
  the cycle only assigns to it, looks ids up and takes its length.
\<close>

type_synonym keyMap = "(string \<times> string) list"

fun keyMap_set :: "string \<Rightarrow> string \<Rightarrow> keyMap \<Rightarrow> keyMap" where
  "keyMap_set k v [] = [(k, v)]"
| "keyMap_set k v (p # m) = (if fst p = k then (k, v) # m else p # keyMap_set k v m)"

definition keyMap_present :: "string \<Rightarrow> keyMap \<Rightarrow> bool" where
  "keyMap_present k m = (map_of m k \<noteq> None)"

record daemon_env =
  env_Lock :: "error option"
  env_Get :: "error + string list"
  env_ReadDir :: "error + string list"
  env_CacheGetKey :: "string \<Rightarrow> error + string"
  env_GetKeys :: "keyMap \<Rightarrow> error + string list"
  env_NetworkGetKey :: "string \<Rightarrow> string option"
  env_Marshal :: "string \<Rightarrow> string option"
  env_TempFile :: "string \<Rightarrow> string option"
  env_Write :: "string \<Rightarrow> string option"
  env_Rename :: "string \<Rightarrow> string option"
  env_Chmod :: "string \<Rightarrow> string option"

text \<open>
  \<^verbatim>\<open>env_NetworkGetKey\<close> and the five file steps answer \<^verbatim>\<open>None\<close> on success and the text of
  the error otherwise; \<^verbatim>\<open>env_CacheGetKey\<close> answers the version hash of the cached key.
\<close>

definition Errorf1 :: "string \<Rightarrow> string \<Rightarrow> error" where
  "Errorf1 a x = ErrMessage (a @ x)"

definition Errorf2 :: "string \<Rightarrow> string \<Rightarrow> string \<Rightarrow> string \<Rightarrow> error" where
  "Errorf2 a x b y = ErrMessage (a @ x @ b @ y)"

definition processKey_store :: "daemon_env \<Rightarrow> string \<Rightarrow> error option \<times> event list" where
  "processKey_store env keyID =
    (case env_TempFile env keyID of
      Some msg \<Rightarrow>
        (Some (Errorf2 ''Error opening tmp file for key '' keyID '': '' msg),
         [Tmp_Create keyID])
    | None \<Rightarrow>
     (case env_Write env keyID of
      Some msg \<Rightarrow>
        (Some (Errorf2 ''Error writing key '' keyID '' to file: '' msg),
         [Tmp_Create keyID, Tmp_Write keyID, Tmp_Close keyID, Tmp_Remove keyID])
    | None \<Rightarrow>
     (case env_Rename env keyID of
      Some msg \<Rightarrow>
        (Some (Errorf2 ''Error renaming key '' keyID '' temporary file: '' msg),
         [Tmp_Create keyID, Tmp_Write keyID, Tmp_Close keyID, Tmp_Rename keyID,
          Tmp_Remove keyID])
    | None \<Rightarrow>
     (case env_Chmod env keyID of
      Some msg \<Rightarrow>
        (Some (Errorf1 ''Failed to open up key file permissions: '' msg),
         [Tmp_Create keyID, Tmp_Write keyID, Tmp_Close keyID, Tmp_Rename keyID,
          Key_Chmod keyID])
    | None \<Rightarrow>
        (None,
         [Tmp_Create keyID, Tmp_Write keyID, Tmp_Close keyID, Tmp_Rename keyID,
          Key_Chmod keyID])))))"

definition unregister_on :: "string \<Rightarrow> bool" where
  "unregister_on msg =
    (msg = ''User or machine not authorized'' \<or> msg = ''Key identifer does not exist'')"

definition processKey :: "daemon_env \<Rightarrow> string \<Rightarrow> error option \<times> event list" where
  "processKey env keyID =
    (case env_NetworkGetKey env keyID of
      Some msg \<Rightarrow>
        (Some (Errorf2 ''Error getting key '' keyID '': '' msg),
         Net_GetKey keyID # (if unregister_on msg then [Register_Remove keyID] else []))
    | None \<Rightarrow>
     (case env_Marshal env keyID of
      Some msg \<Rightarrow>
        (Some (Errorf2 ''Error marshalling key '' keyID '': '' msg), [Net_GetKey keyID])
    | None \<Rightarrow>
        (fst (processKey_store env keyID), Net_GetKey keyID # snd (processKey_store env keyID))))"

text \<open>
  The loop over the files of the key directory: a file whose id is registered has its
  cached hash entered in the map (a cache error is logged and the loop goes on), any other
  file is deleted.
\<close>

fun cache_loop :: "daemon_env \<Rightarrow> string list \<Rightarrow> keyMap \<Rightarrow> keyMap \<times> event list" where
  "cache_loop env [] m = (m, [])"
| "cache_loop env (keyID # rest) m =
    (if keyMap_present keyID m
     then (case env_CacheGetKey env keyID of
             Inl e \<Rightarrow>
               (fst (cache_loop env rest m), Cache_GetKey keyID # snd (cache_loop env rest m))
           | Inr h \<Rightarrow>
               (fst (cache_loop env rest (keyMap_set keyID h m)),
                Cache_GetKey keyID # snd (cache_loop env rest (keyMap_set keyID h m))))
     else (fst (cache_loop env rest m), Delete_Key keyID # snd (cache_loop env rest m)))"

text \<open>
  The loop over the ids the server reports as changed; the first component counts the
  increments of \<^verbatim>\<open>getKeyErrCount\<close>.
\<close>

fun processKeys :: "daemon_env \<Rightarrow> string list \<Rightarrow> nat \<times> event list" where
  "processKeys env [] = (0, [])"
| "processKeys env (k # ks) =
    ((if fst (processKey env k) = None then 0 else 1) + fst (processKeys env ks),
     snd (processKey env k) @ snd (processKeys env ks))"

record update_run =
  upd_err :: "error option"
  upd_getKeyErrs :: nat
  upd_trace :: "event list"

definition currentRegisteredKeys :: "daemon_env \<Rightarrow> string list" where
  "currentRegisteredKeys env = (case env_ReadDir env of Inl e \<Rightarrow> [] | Inr files \<Rightarrow> files)"

definition initial_keyMap :: "string list \<Rightarrow> keyMap" where
  "initial_keyMap keyIDs = foldl (\<lambda>m k. keyMap_set k [] m) [] keyIDs"

definition update_fetch :: "daemon_env \<Rightarrow> keyMap \<Rightarrow> update_run" where
  "update_fetch env m =
    (if 0 < length m
     then (case env_GetKeys env m of
             Inl e \<Rightarrow> \<lparr>upd_err = Some e, upd_getKeyErrs = 0, upd_trace = [Net_GetKeys m]\<rparr>
           | Inr updatedKeys \<Rightarrow>
               \<lparr>upd_err = None, upd_getKeyErrs = fst (processKeys env updatedKeys),
                upd_trace = Net_GetKeys m # snd (processKeys env updatedKeys)\<rparr>)
     else \<lparr>upd_err = None, upd_getKeyErrs = 0, upd_trace = []\<rparr>)"

definition update_locked :: "daemon_env \<Rightarrow> update_run" where
  "update_locked env =
    (case env_Get env of
      Inl e \<Rightarrow> \<lparr>upd_err = Some e, upd_getKeyErrs = 0, upd_trace = [Register_Get]\<rparr>
    | Inr keyIDs \<Rightarrow>
        (update_fetch env (fst (cache_loop env (currentRegisteredKeys env) (initial_keyMap keyIDs))))
          \<lparr>upd_trace :=
             [Register_Get, ReadDir]
             @ snd (cache_loop env (currentRegisteredKeys env) (initial_keyMap keyIDs))
             @ upd_trace (update_fetch env
                 (fst (cache_loop env (currentRegisteredKeys env) (initial_keyMap keyIDs))))\<rparr>)"

text \<open>
  \<^verbatim>\<open>update\<close>: the lock is taken first, and \<^verbatim>\<open>defer d.registerKeyFile.Unlock()\<close> makes the
  release the last call of every return path after it.
\<close>

definition daemon_update :: "daemon_env \<Rightarrow> update_run" where
  "daemon_update env =
    (case env_Lock env of
      Some e \<Rightarrow> \<lparr>upd_err = Some e, upd_getKeyErrs = 0, upd_trace = [Lock_failed e]\<rparr>
    | None \<Rightarrow>
        (update_locked env)
          \<lparr>upd_trace := Lock_acquired # upd_trace (update_locked env) @ [Unlock_call]\<rparr>)"

subsection \<open>Reading a trace\<close>

fun is_lock_event :: "event \<Rightarrow> bool" where
  "is_lock_event Lock_acquired = True"
| "is_lock_event (Lock_failed e) = True"
| "is_lock_event Unlock_call = True"
| "is_lock_event e = False"

fun is_network :: "event \<Rightarrow> bool" where
  "is_network (Net_GetKeys m) = True"
| "is_network (Net_GetKey k) = True"
| "is_network e = False"

text \<open>
  \<^verbatim>\<open>under_lock held t\<close> are the events of \<^verbatim>\<open>t\<close>, other than the lock's own, that happen
  while the lock is held, \<^verbatim>\<open>outside_lock held t\<close> those that happen while it is not;
  \<^verbatim>\<open>held\<close> says whether the lock is held when \<^verbatim>\<open>t\<close> starts.
\<close>

fun under_lock :: "bool \<Rightarrow> event list \<Rightarrow> event list" where
  "under_lock held [] = []"
| "under_lock held (e # t) =
    (if e = Lock_acquired then under_lock True t
     else if e = Unlock_call then under_lock False t
     else if held \<and> \<not> is_lock_event e then e # under_lock held t
     else under_lock held t)"

fun outside_lock :: "bool \<Rightarrow> event list \<Rightarrow> event list" where
  "outside_lock held [] = []"
| "outside_lock held (e # t) =
    (if e = Lock_acquired then outside_lock True t
     else if e = Unlock_call then outside_lock False t
     else if \<not> held \<and> \<not> is_lock_event e then e # outside_lock held t
     else outside_lock held t)"

subsection \<open>The cycle's own events\<close>

lemma processKey_store_events:
  "e \<in> set (snd (processKey_store env k)) \<Longrightarrow> \<not> is_lock_event e"
  by (auto simp add: processKey_store_def split: option.splits)

lemma processKey_events:
  "e \<in> set (snd (processKey env k)) \<Longrightarrow> \<not> is_lock_event e"
  using processKey_store_events [of e env k]
  by (auto simp add: processKey_def split: option.splits if_splits)

lemma processKeys_events:
  "e \<in> set (snd (processKeys env ks)) \<Longrightarrow> \<not> is_lock_event e"
  using processKey_events by (induction ks) auto

lemma cache_loop_events:
  "e \<in> set (snd (cache_loop env ks m)) \<Longrightarrow> \<not> is_lock_event e"
  by (induction ks arbitrary: m) (auto split: if_splits sum.splits)

lemma update_fetch_events:
  "e \<in> set (upd_trace (update_fetch env m)) \<Longrightarrow> \<not> is_lock_event e"
  using processKeys_events [of e env]
  by (auto simp add: update_fetch_def split: if_splits sum.splits)

lemma update_locked_events:
  "e \<in> set (upd_trace (update_locked env)) \<Longrightarrow> \<not> is_lock_event e"
  using update_fetch_events [of e env] cache_loop_events [of e env]
  by (auto simp add: update_locked_def split: sum.splits)

lemma update_locked_first:
  "\<exists>t. upd_trace (update_locked env) = Register_Get # t"
  by (simp add: update_locked_def split: sum.splits)

lemma under_lock_own_events:
  "\<forall>e\<in>set b. \<not> is_lock_event e \<Longrightarrow> under_lock True (b @ t) = b @ under_lock True t"
  by (induction b) auto

lemma outside_lock_own_events:
  "\<forall>e\<in>set b. \<not> is_lock_event e \<Longrightarrow> outside_lock True (b @ t) = outside_lock True t"
  by (induction b) auto

lemma keyMap_set_not_empty: "keyMap_set k v m \<noteq> []"
  by (cases m) auto

lemma initial_keyMap_not_empty: "keyIDs \<noteq> [] \<Longrightarrow> initial_keyMap keyIDs \<noteq> []"
  by (cases keyIDs rule: rev_cases) (auto simp add: initial_keyMap_def keyMap_set_not_empty)

lemma cache_loop_not_empty: "m \<noteq> [] \<Longrightarrow> fst (cache_loop env ks m) \<noteq> []"
  by (induction ks arbitrary: m) (auto simp add: keyMap_set_not_empty split: sum.splits)

lemma update_fetch_request:
  "m \<noteq> [] \<Longrightarrow> Net_GetKeys m \<in> set (upd_trace (update_fetch env m))"
  by (auto simp add: update_fetch_def split: sum.splits)

lemma update_locked_request:
  assumes "env_Get env = Inr keyIDs" and "keyIDs \<noteq> []"
  shows "\<exists>m. m \<noteq> [] \<and> Net_GetKeys m \<in> set (upd_trace (update_locked env))"
proof -
  let ?m = "fst (cache_loop env (currentRegisteredKeys env) (initial_keyMap keyIDs))"
  have "?m \<noteq> []"
    using assms(2) by (simp add: cache_loop_not_empty initial_keyMap_not_empty)
  moreover from this have "Net_GetKeys ?m \<in> set (upd_trace (update_fetch env ?m))"
    by (rule update_fetch_request)
  ultimately show ?thesis
    using assms(1) by (auto simp add: update_locked_def)
qed

lemma daemon_update_trace:
  "env_Lock env = None \<Longrightarrow>
    upd_trace (daemon_update env) = Lock_acquired # upd_trace (update_locked env) @ [Unlock_call]"
  by (simp add: daemon_update_def)

lemma daemon_update_under_lock:
  assumes "env_Lock env = None"
  shows "under_lock False (upd_trace (daemon_update env)) = upd_trace (update_locked env)"
    and "outside_lock False (upd_trace (daemon_update env)) = []"
proof -
  have b: "\<forall>e\<in>set (upd_trace (update_locked env)). \<not> is_lock_event e"
    using update_locked_events by blast
  show "under_lock False (upd_trace (daemon_update env)) = upd_trace (update_locked env)"
    using under_lock_own_events [OF b, of "[Unlock_call]"]
    by (simp add: daemon_update_trace [OF assms])
  show "outside_lock False (upd_trace (daemon_update env)) = []"
    using outside_lock_own_events [OF b, of "[Unlock_call]"]
    by (simp add: daemon_update_trace [OF assms])
qed

lemma daemon_update_lock_failed:
  "env_Lock env = Some e \<Longrightarrow>
    daemon_update env = \<lparr>upd_err = Some e, upd_getKeyErrs = 0, upd_trace = [Lock_failed e]\<rparr>"
  by (simp add: daemon_update_def)

text \<open>
  Claim C9. In an update cycle of the refresh daemon the lock of the registration file is
  taken once, as the first call, and released once, as the last call before \<^verbatim>\<open>update\<close>
  returns: every other call of the cycle happens while the lock is held and none outside
  it. The first of them reads the registered id set; when that set is read and is not
  empty, the list-changed request to the server is among them, and so is every network
  call the cycle makes, the per-key fetches included. The lock is therefore held across
  the network calls, not released before them.
\<close>

theorem daemon_update_lock_scope:
  assumes "env_Lock env = None"
  shows "upd_trace (daemon_update env)
           = Lock_acquired # under_lock False (upd_trace (daemon_update env)) @ [Unlock_call]
         \<and> (\<forall>e\<in>set (under_lock False (upd_trace (daemon_update env))). \<not> is_lock_event e)
         \<and> outside_lock False (upd_trace (daemon_update env)) = []
         \<and> hd (under_lock False (upd_trace (daemon_update env))) = Register_Get
         \<and> (\<forall>keyIDs. env_Get env = Inr keyIDs \<and> keyIDs \<noteq> [] \<longrightarrow>
              (\<exists>m. m \<noteq> [] \<and> Net_GetKeys m \<in> set (under_lock False (upd_trace (daemon_update env)))))
         \<and> (\<forall>e\<in>set (upd_trace (daemon_update env)).
              is_network e \<longrightarrow> e \<in> set (under_lock False (upd_trace (daemon_update env))))"
proof -
  note u = daemon_update_under_lock [OF assms]
  have t: "upd_trace (daemon_update env)
             = Lock_acquired # upd_trace (update_locked env) @ [Unlock_call]"
    using assms by (rule daemon_update_trace)
  have "hd (upd_trace (update_locked env)) = Register_Get"
    using update_locked_first [of env] by auto
  moreover have "\<forall>e\<in>set (upd_trace (update_locked env)). \<not> is_lock_event e"
    using update_locked_events by blast
  moreover have "\<forall>keyIDs. env_Get env = Inr keyIDs \<and> keyIDs \<noteq> [] \<longrightarrow>
      (\<exists>m. m \<noteq> [] \<and> Net_GetKeys m \<in> set (upd_trace (update_locked env)))"
    using update_locked_request by blast
  moreover have "\<forall>e\<in>set (upd_trace (daemon_update env)).
      is_network e \<longrightarrow> e \<in> set (upd_trace (update_locked env))"
    unfolding t by auto
  ultimately show ?thesis
    unfolding u using t by simp
qed

definition example_daemon_env :: daemon_env where
  "example_daemon_env =
    \<lparr>env_Lock = None,
     env_Get = Inr [''k''],
     env_ReadDir = Inr [],
     env_CacheGetKey = (\<lambda>k. Inl ErrOpen),
     env_GetKeys = (\<lambda>m. Inr (map fst m)),
     env_NetworkGetKey = (\<lambda>k. None),
     env_Marshal = (\<lambda>k. None),
     env_TempFile = (\<lambda>k. None),
     env_Write = (\<lambda>k. None),
     env_Rename = (\<lambda>k. None),
     env_Chmod = (\<lambda>k. None)\<rparr>"

definition revoked_daemon_env :: daemon_env where
  "revoked_daemon_env =
    example_daemon_env
      \<lparr>env_ReadDir := Inr [''k'', ''old''],
       env_CacheGetKey := (\<lambda>k. Inr ''7c9f''),
       env_NetworkGetKey := (\<lambda>k. Some ''User or machine not authorized'')\<rparr>"

lemmas daemon_eval =
  daemon_update_def update_locked_def update_fetch_def currentRegisteredKeys_def
  initial_keyMap_def keyMap_present_def processKey_def processKey_store_def unregister_on_def
  Errorf1_def Errorf2_def example_daemon_env_def revoked_daemon_env_def

theorem daemon_update_lock_scope_witness:
  "env_Lock revoked_daemon_env = None
   \<and> upd_trace (daemon_update revoked_daemon_env)
       = [Lock_acquired, Register_Get, ReadDir, Cache_GetKey ''k'', Delete_Key ''old'',
          Net_GetKeys [(''k'', ''7c9f'')], Net_GetKey ''k'', Register_Remove ''k'', Unlock_call]
   \<and> under_lock False (upd_trace (daemon_update revoked_daemon_env))
       = [Register_Get, ReadDir, Cache_GetKey ''k'', Delete_Key ''old'',
          Net_GetKeys [(''k'', ''7c9f'')], Net_GetKey ''k'', Register_Remove ''k'']
   \<and> outside_lock False (upd_trace (daemon_update revoked_daemon_env)) = []
   \<and> upd_getKeyErrs (daemon_update revoked_daemon_env) = 1
   \<and> upd_err (daemon_update revoked_daemon_env) = None"
  using daemon_update_lock_scope [of revoked_daemon_env]
  by (simp add: daemon_eval)

text \<open>
  A cycle with one registered key that the server reports as changed: the list-changed
  request and the fetch of the key are both made between the acquisition of the lock and
  its release, and the call after the read of the id set is not the release.
\<close>

theorem daemon_update_holds_lock_counterexample:
  "upd_trace (daemon_update example_daemon_env)
     = [Lock_acquired, Register_Get, ReadDir, Net_GetKeys [(''k'', [])], Net_GetKey ''k'',
        Tmp_Create ''k'', Tmp_Write ''k'', Tmp_Close ''k'', Tmp_Rename ''k'', Key_Chmod ''k'',
        Unlock_call]
   \<and> filter is_network (under_lock False (upd_trace (daemon_update example_daemon_env)))
       = [Net_GetKeys [(''k'', [])], Net_GetKey ''k'']
   \<and> filter is_network (outside_lock False (upd_trace (daemon_update example_daemon_env))) = []"
  by (simp add: daemon_eval)

end
